theory Spec2Isabelle
  imports Main "HOL-Library.AList"
begin

section \<open>Python values, exceptions and built-in operations\<close>

text \<open>
  The exceptions that the statements of \<^verbatim>\<open>scrapper.py\<close> can raise. A raise is the
  left injection of a sum, \<open>Inl e\<close>; a normal return is \<open>Inr v\<close>.
\<close>

datatype error =
    KeyError
  | IndexError
  | TypeError
  | AttributeError
  | NameError
  | AssertionError
  | NoSuchElementException

definition bindE :: "error + 'a \<Rightarrow> ('a \<Rightarrow> error + 'b) \<Rightarrow> error + 'b" where
  "bindE m f = (case m of Inl e \<Rightarrow> Inl e | Inr x \<Rightarrow> f x)"

text \<open>
  A computation that may also fail to return: \<open>None\<close> is a loop that runs forever,
  \<open>Some (Inl e)\<close> a raise, \<open>Some (Inr v)\<close> a return.
\<close>

definition bindR :: "(error + 'a) option \<Rightarrow> ('a \<Rightarrow> (error + 'b) option) \<Rightarrow> (error + 'b) option" where
  "bindR m f = (case m of None \<Rightarrow> None | Some (Inl e) \<Rightarrow> Some (Inl e) | Some (Inr x) \<Rightarrow> f x)"

subsection \<open>\<^verbatim>\<open>str.find\<close> and slicing\<close>

text \<open>
  \<^verbatim>\<open>s.find(sub)\<close> is the lowest index at which \<open>sub\<close> occurs in \<open>s\<close>,
  and \<open>-1\<close> when it does not occur.
\<close>

fun str_find :: "string \<Rightarrow> string \<Rightarrow> int" where
  "str_find [] sub = (if sub = [] then 0 else - 1)"
| "str_find (c # s) sub =
     (if take (length sub) (c # s) = sub then 0
      else (let r = str_find s sub in if r < 0 then - 1 else r + 1))"

text \<open>
  \<^verbatim>\<open>s[:k]\<close>: a negative bound counts from the end of the sequence, and a bound
  outside the sequence is clamped.
\<close>

definition slice_to :: "'a list \<Rightarrow> int \<Rightarrow> 'a list" where
  "slice_to s k = (if 0 \<le> k then take (nat k) s else take (length s - nat (- k)) s)"

subsection \<open>Objects and dictionaries\<close>

text \<open>
  Two kinds of Python value carry named string-or-\<^verbatim>\<open>None\<close> entries here: a
  \<^verbatim>\<open>dict\<close> literal, whose entries are read with \<^verbatim>\<open>d["k"]\<close>, and an instance, whose
  entries are read as attributes \<^verbatim>\<open>o.k\<close>. Reading an attribute that is not there raises
  \<^verbatim>\<open>AttributeError\<close>; a \<^verbatim>\<open>dict\<close> has no attribute named after one of its keys.
  (\<open>py_getattr\<close> is only used for the attribute names \<^verbatim>\<open>user_link\<close> and
  \<^verbatim>\<open>post_link\<close>, neither of which is a method of \<^verbatim>\<open>dict\<close>.)
\<close>

datatype pyobj =
    Dict "(string \<times> string option) list"
  | Obj "(string \<times> string option) list"

fun py_getattr :: "pyobj \<Rightarrow> string \<Rightarrow> error + string option" where
  "py_getattr (Obj attributes) a =
     (case map_of attributes a of None \<Rightarrow> Inl AttributeError | Some v \<Rightarrow> Inr v)"
| "py_getattr (Dict entries) a = Inl AttributeError"

text \<open>Truth value of a \<^verbatim>\<open>str | None\<close>: \<^verbatim>\<open>None\<close> and the empty string are false.\<close>

fun truthy :: "string option \<Rightarrow> bool" where
  "truthy None = False"
| "truthy (Some s) = (s \<noteq> [])"

section \<open>The parsed document\<close>

text \<open>
  A BeautifulSoup tree: a \<^verbatim>\<open>Tag\<close> has a name, an attribute dictionary and a list of
  children (\<^verbatim>\<open>.contents\<close>); a \<^verbatim>\<open>NavigableString\<close> is a piece of text, a \<^verbatim>\<open>str\<close>
  with no \<^verbatim>\<open>.contents\<close> and no \<^verbatim>\<open>.attrs\<close>. Only the presence of \<^verbatim>\<open>class\<close> is ever
  tested, so every attribute value is kept as a string.
\<close>

datatype node =
    Tag string "(string \<times> string) list" "node list"
  | NavigableString string

fun contents :: "node \<Rightarrow> error + node list" where
  "contents (Tag name as cs) = Inr cs"
| "contents (NavigableString s) = Inl AttributeError"

fun attrs :: "node \<Rightarrow> error + (string \<times> string) list" where
  "attrs (Tag name as cs) = Inr as"
| "attrs (NavigableString s) = Inl AttributeError"

text \<open>\<^verbatim>\<open>"k" in node.attrs\<close>\<close>

definition has_attr :: "string \<Rightarrow> node \<Rightarrow> error + bool" where
  "has_attr k n = bindE (attrs n) (\<lambda>as. Inr (k \<in> fst ` set as))"

text \<open>
  \<^verbatim>\<open>node["k"]\<close>: the attribute's value, \<^verbatim>\<open>KeyError\<close> when the tag has no such
  attribute. A \<^verbatim>\<open>NavigableString\<close> is a \<^verbatim>\<open>str\<close>, which cannot be indexed by a string.
\<close>

fun getitem :: "node \<Rightarrow> string \<Rightarrow> error + string" where
  "getitem (Tag name as cs) k = (case map_of as k of None \<Rightarrow> Inl KeyError | Some v \<Rightarrow> Inr v)"
| "getitem (NavigableString s) k = Inl TypeError"

text \<open>\<^verbatim>\<open>xs[i]\<close> for \<open>i \<ge> 0\<close>, and \<^verbatim>\<open>node.contents[i]\<close>.\<close>

definition index :: "'a list \<Rightarrow> nat \<Rightarrow> error + 'a" where
  "index xs i = (if i < length xs then Inr (xs ! i) else Inl IndexError)"

definition child :: "node \<Rightarrow> nat \<Rightarrow> error + node" where
  "child n i = bindE (contents n) (\<lambda>cs. index cs i)"

text \<open>\<^verbatim>\<open>node.text\<close>: the strings below the node, in document order.\<close>

fun text_of :: "node \<Rightarrow> string" where
  "text_of (NavigableString s) = s"
| "text_of (Tag name as cs) = concat (map text_of cs)"

text \<open>
  The tags below a node in document order (the node itself is not among them), as
  \<^verbatim>\<open>find\<close> and \<^verbatim>\<open>find_all\<close> visit them.
\<close>

fun descendants :: "node \<Rightarrow> node list" where
  "descendants (NavigableString s) = []"
| "descendants (Tag name as cs) = concat (map (\<lambda>c. c # descendants c) cs)"

fun matches :: "string \<Rightarrow> (string \<times> string) list \<Rightarrow> node \<Rightarrow> bool" where
  "matches name want (Tag name' as cs) =
     (name' = name \<and> list_all (\<lambda>(k, v). map_of as k = Some v) want)"
| "matches name want (NavigableString s) = False"

definition find_all :: "node \<Rightarrow> string \<Rightarrow> (string \<times> string) list \<Rightarrow> node list" where
  "find_all n name want = filter (matches name want) (descendants n)"

text \<open>\<^verbatim>\<open>node.find(name, attrs)\<close>: the first match, or \<^verbatim>\<open>None\<close>.\<close>

definition find_tag :: "node \<Rightarrow> string \<Rightarrow> (string \<times> string) list \<Rightarrow> node option" where
  "find_tag n name want = (case find_all n name want of [] \<Rightarrow> None | t # _ \<Rightarrow> Some t)"

section \<open>Lead extraction\<close>

subsection \<open>Links\<close>

text \<open>
  \<^verbatim>\<open>x.find("a")["href"]\<close>. When \<open>x\<close> is a tag without an anchor below it,
  \<^verbatim>\<open>find\<close> gives \<^verbatim>\<open>None\<close> and the subscript raises \<^verbatim>\<open>TypeError\<close>; when \<open>x\<close> is
  a \<^verbatim>\<open>NavigableString\<close>, \<^verbatim>\<open>find\<close> is \<^verbatim>\<open>str.find\<close>, which gives an integer, and the
  subscript raises \<^verbatim>\<open>TypeError\<close> as well.
\<close>

fun anchor_href :: "node \<Rightarrow> error + string" where
  "anchor_href (NavigableString s) = Inl TypeError"
| "anchor_href (Tag name as cs) =
     (case find_tag (Tag name as cs) ''a'' [] of
        None \<Rightarrow> Inl TypeError
      | Some a \<Rightarrow> getitem a ''href'')"

definition cft_marker :: string where
  "cft_marker = ''?__cft__[0]''"

text \<open>\<^verbatim>\<open>link[: link.find("?__cft__[0]")]\<close>\<close>

definition trim_link :: "string \<Rightarrow> string" where
  "trim_link link = slice_to link (str_find link cft_marker)"

definition get_post_link :: "node \<Rightarrow> error + string" where
  "get_post_link user_info =
     bindE (child user_info 0) (\<lambda>c0.
     bindE (child c0 1) (\<lambda>c01.
     bindE (anchor_href c01) (\<lambda>post_link.
     Inr (trim_link post_link))))"

definition get_user_link :: "node \<Rightarrow> error + string" where
  "get_user_link user_info =
     bindE (anchor_href user_info) (\<lambda>user_link.
     Inr (trim_link user_link))"

text \<open>\<^verbatim>\<open>post_info[0].contents[0].contents[1]\<close>\<close>

definition get_user_info :: "node list \<Rightarrow> error + node" where
  "get_user_info post_info =
     bindE (index post_info 0) (\<lambda>p0.
     bindE (child p0 0) (\<lambda>p00.
     child p00 1))"

subsection \<open>The post-info block\<close>

text \<open>
  One pass through the body of the \<^verbatim>\<open>while True\<close> loop of \<^verbatim>\<open>_get_post_info\<close> ends in
  one of four ways: the loop goes on with the first child (\<open>Descend\<close>), it is left
  with \<^verbatim>\<open>break\<close> (\<open>Break\<close>), the function returns a block (\<open>Return\<close>), or the
  \<^verbatim>\<open>for\<close> loop runs out and the body starts again on the same node (\<open>Again\<close>).
\<close>

datatype step = Descend node | Break | Return "node list" | Again

text \<open>
  The \<^verbatim>\<open>for div in ...\<close> loop: the first \<open>div\<close> without a \<^verbatim>\<open>class\<close> attribute and
  with children decides; \<open>None\<close> when no \<open>div\<close> qualifies.
\<close>

fun scan_divs :: "node list \<Rightarrow> error + node list option" where
  "scan_divs [] = Inr None"
| "scan_divs (d # rest) =
     bindE (has_attr ''class'' d) (\<lambda>has_class.
     bindE (if has_class then Inr False else bindE (contents d) (\<lambda>cs. Inr (cs \<noteq> []))) (\<lambda>hit.
       if hit then
         bindE (child d 0) (\<lambda>d0.
         bindE (child d0 0) (\<lambda>d00.
         bindE (contents d00) (\<lambda>cs. Inr (Some (drop 1 cs)))))
       else scan_divs rest))"

definition try_body :: "node \<Rightarrow> error + step" where
  "try_body feed_post =
     bindE (getitem feed_post ''style'') (\<lambda>style.
       if style = [] then bindE (child feed_post 0) (\<lambda>c. Inr (Descend c))
       else
         bindE (has_attr ''aria-hidden'' feed_post) (\<lambda>hidden.
           if hidden then Inr Break
           else
             bindE (child feed_post 0) (\<lambda>c0.
             bindE (contents c0) (\<lambda>divs.
             bindE (scan_divs divs) (\<lambda>found.
               case found of
                 Some post_info \<Rightarrow> Inr (Return post_info)
               | None \<Rightarrow> Inr Again)))))"

text \<open>
  \<^verbatim>\<open>_get_post_info\<close>. Only \<^verbatim>\<open>KeyError\<close> is caught around the body; its handler
  descends to the first child and leaves the loop when there is none. Every other exception
  leaves the function. The loop has no bound: the result is \<open>None\<close> when it never returns.
\<close>

partial_function (option) get_post_info :: "node \<Rightarrow> (error + node list option) option" where
  "get_post_info feed_post =
     (case try_body feed_post of
        Inl KeyError \<Rightarrow>
          (case child feed_post 0 of
             Inl IndexError \<Rightarrow> Some (Inr None)
           | Inl e \<Rightarrow> Some (Inl e)
           | Inr c \<Rightarrow> get_post_info c)
      | Inl e \<Rightarrow> Some (Inl e)
      | Inr (Descend c) \<Rightarrow> get_post_info c
      | Inr Break \<Rightarrow> Some (Inr None)
      | Inr (Return post_info) \<Rightarrow> Some (Inr (Some post_info))
      | Inr Again \<Rightarrow> get_post_info feed_post)"

declare get_post_info.simps [code]

subsection \<open>The post text\<close>

definition newline :: string where
  "newline = [CHR 0x0A]"

text \<open>
  What one child \<open>el\<close> of \<^verbatim>\<open>post_info[1]\<close> adds to \<^verbatim>\<open>post_text\<close>; the branches that
  \<^verbatim>\<open>continue\<close> add nothing. The f-string of the \<^verbatim>\<open>logger.warning\<close> call is evaluated,
  so an exception of \<^verbatim>\<open>_get_user_info\<close> or \<^verbatim>\<open>_get_post_link\<close> leaves the function there.
\<close>

fun classify :: "node list \<Rightarrow> node \<Rightarrow> error + string" where
  "classify post_info (NavigableString s) = Inl AttributeError"
| "classify post_info (Tag name as cs) =
     (let el = Tag name as cs in
      bindE (child el 0) (\<lambda>c0.
      bindE (has_attr ''data-ad-comet-preview'' c0) (\<lambda>preview.
        if preview then
          bindE (child c0 0) (\<lambda>c00. Inr (text_of c00 @ newline))
        else if name = ''blockquote'' then
          bindE (child c0 0) (\<lambda>c00. Inr (''Translated text: '' @ text_of c00))
        else
          bindE (child c0 0) (\<lambda>c00.
          (case c00 of
             NavigableString s \<Rightarrow> Inl AttributeError
           | Tag name00 as00 cs00 \<Rightarrow>
               if length cs00 = 3 then
                 (if name00 = ''a'' then Inr []
                  else
                    (case bindE (child (cs00 ! 2) 0) (\<lambda>t. Inr (text_of t @ newline)) of
                       Inl IndexError \<Rightarrow> Inr (''Inserted message doesn't contain any text'' @ newline)
                     | r \<Rightarrow> r))
               else
                 bindE (contents c0) (\<lambda>cs0.
                   if length cs0 = 3 then
                     (case find_tag el ''div'' [(''data-ad-comet-preview'', ''message'')] of
                        Some t \<Rightarrow> Inr (text_of t)
                      | None \<Rightarrow>
                          bindE (get_user_info post_info) (\<lambda>user_info.
                          bindE (get_post_link user_info) (\<lambda>link. Inr [])))
                   else if fst ` set as = {''class'', ''id''} then Inr []
                   else Inr (text_of el @ newline)))))))"

fun classify_all :: "node list \<Rightarrow> node list \<Rightarrow> error + string" where
  "classify_all post_info [] = Inr []"
| "classify_all post_info (el # els) =
     bindE (classify post_info el) (\<lambda>t.
     bindE (classify_all post_info els) (\<lambda>rest. Inr (t @ rest)))"

definition no_text :: string where
  "no_text = ''No text available''"

definition get_post_text :: "node list \<Rightarrow> error + string" where
  "get_post_text post_info =
     bindE (index post_info 1) (\<lambda>p1.
     bindE (contents p1) (\<lambda>els.
     bindE (classify_all post_info els) (\<lambda>post_text.
     Inr (if post_text \<noteq> [] then post_text else no_text))))"

subsection \<open>The lead\<close>

text \<open>
  The lead is the \<^verbatim>\<open>dict\<close> literal
  \<^verbatim>\<open>{"post_text": ..., "user_link": ..., "post_link": ...}\<close>.
\<close>

definition make_lead :: "string option \<Rightarrow> string option \<Rightarrow> string option \<Rightarrow> pyobj" where
  "make_lead post_text user_link post_link =
     Dict [(''post_text'', post_text), (''user_link'', user_link), (''post_link'', post_link)]"

text \<open>\<^verbatim>\<open>not post_info\<close>: \<^verbatim>\<open>None\<close> and the empty list are false.\<close>

fun no_post_info :: "node list option \<Rightarrow> bool" where
  "no_post_info None = True"
| "no_post_info (Some post_info) = (post_info = [])"

definition get_lead_from_feed_post :: "node \<Rightarrow> (error + pyobj) option" where
  "get_lead_from_feed_post feed_post =
     bindR (get_post_info feed_post) (\<lambda>found.
       if no_post_info found then Some (Inr (make_lead None None None))
       else
         (let post_info = the found in
          Some (bindE (get_user_info post_info) (\<lambda>user_info.
                bindE (get_user_link user_info) (\<lambda>user_link.
                bindE (get_post_link user_info) (\<lambda>post_link.
                bindE (get_post_text post_info) (\<lambda>post_text.
                Inr (make_lead (Some post_text) (Some user_link) (Some post_link)))))))))"

text \<open>\<^verbatim>\<open>_is_valid_post\<close>; the \<^verbatim>\<open>and\<close> chain stops at its first false operand.\<close>

definition is_valid_post :: "node \<Rightarrow> error + bool" where
  "is_valid_post post =
     bindE (has_attr ''class'' post) (\<lambda>has_class.
       if \<not> has_class then Inr False
       else
         bindE (contents post) (\<lambda>cs.
           if cs = [] then Inr False
           else
             bindE (child post 0) (\<lambda>p0.
             bindE (child p0 0) (\<lambda>p00.
             bindE (has_attr ''hidden'' p00) (\<lambda>hidden.
               if hidden then Inr False else has_attr ''aria-posinset'' post)))))"

section \<open>The browser session, accounts and groups\<close>

text \<open>
  A cookie is a \<^verbatim>\<open>dict\<close>; \<^verbatim>\<open>cookie["sameSite"] = "Lax"\<close> replaces the value stored
  under the key and keeps every other entry.
\<close>

type_synonym cookie = "(string \<times> string) list"

text \<open>The elements that the source looks up with \<^verbatim>\<open>find_element\<close>.\<close>

datatype locator =
    DeclineCookiesButton
  | LoginMessage
  | EmailField
  | PassField
  | LoginButton
  | FeedContainer
  | Body

text \<open>
  The browser is outside the program. It is a state that answers the calls the source
  makes: \<open>landing\<close> says where \<^verbatim>\<open>driver.get(url)\<close> ends up when that is not \<open>url\<close>
  itself, \<open>present\<close> which elements \<^verbatim>\<open>find_element\<close> finds (it raises
  \<^verbatim>\<open>NoSuchElementException\<close> for the others), \<open>snapshots\<close> the successive parsed
  \<^verbatim>\<open>page_source\<close> values of an address, one for each pass of the collection loop,
  \<open>browser_cookies\<close> the answer of \<^verbatim>\<open>get_cookies()\<close>, and \<open>webdriver_flag\<close> that
  of \<^verbatim>\<open>navigator.webdriver\<close>. \<open>jar\<close>, \<open>typed\<close> and \<open>clicked\<close> record what
  \<^verbatim>\<open>add_cookie\<close>, \<^verbatim>\<open>send_keys\<close> and \<^verbatim>\<open>click\<close> were given. The waits have no effect
  on the state and are left out.
\<close>

record driver =
  webdriver_flag :: bool
  current_url :: string
  landing :: "(string \<times> string) list"
  present :: "locator list"
  snapshots :: "(string \<times> node list) list"
  browser_cookies :: "cookie list"
  jar :: "cookie list"
  typed :: "(locator \<times> string) list"
  clicked :: "locator list"

record fbgroup =
  group_link :: string
  last_post_link :: "string option"

text \<open>
  \<open>new_cookies\<close> is the attribute that \<^verbatim>\<open>handle_authorization\<close> sets on the account;
  \<open>None\<close> while it has not been set.
\<close>

record account =
  username :: string
  password :: string
  proxy_url :: string
  cookies :: "cookie list"
  groups :: "fbgroup list"
  new_cookies :: "cookie list option"

definition drv_get :: "driver \<Rightarrow> string \<Rightarrow> driver" where
  "drv_get d url =
     d\<lparr>current_url := (case map_of (landing d) url of None \<Rightarrow> url | Some u \<Rightarrow> u)\<rparr>"

definition find_element :: "driver \<Rightarrow> locator \<Rightarrow> error + unit" where
  "find_element d l = (if l \<in> set (present d) then Inr () else Inl NoSuchElementException)"

section \<open>Session establishment\<close>

text \<open>
  \<^verbatim>\<open>add_cookie\<close>. The cookie dictionaries belong to the caller and are changed in
  place, so the function returns, next to its outcome and the browser, the caller's list as
  it is when the function is left: the cookies already visited rewritten, the others as
  they were.
\<close>

fun add_cookie :: "cookie list \<Rightarrow> driver \<Rightarrow> (error + unit) \<times> cookie list \<times> driver" where
  "add_cookie [] d = (Inr (), [], d)"
| "add_cookie (cookie # rest) d =
     (case map_of cookie ''sameSite'' of
        None \<Rightarrow> (Inl KeyError, cookie # rest, d)
      | Some v \<Rightarrow>
          (let c1 = (if v \<in> set [''unspecified'', ''no_restriction'']
                     then AList.update ''sameSite'' ''Lax'' cookie else cookie);
               c2 = (if map_of c1 ''sameSite'' = Some ''lax''
                     then AList.update ''sameSite'' ''Lax'' c1 else c1);
               d1 = d\<lparr>jar := jar d @ [c2]\<rparr>
           in (case add_cookie rest d1 of
                 (r, rest', d2) \<Rightarrow> (r, c2 # rest', d2))))"

text \<open>
  \<^verbatim>\<open>handle_login\<close>. Each \<^verbatim>\<open>with contextlib.suppress(NoSuchElementException)\<close> block is
  left at the first element that is not found; the function then returns \<^verbatim>\<open>None\<close>.
\<close>

definition handle_login :: "account \<Rightarrow> driver \<Rightarrow> cookie list option \<times> driver" where
  "handle_login user d =
     (let d1 = (if DeclineCookiesButton \<in> set (present d)
                then d\<lparr>clicked := clicked d @ [DeclineCookiesButton]\<rparr> else d)
      in if LoginMessage \<notin> set (present d1) then (None, d1)
         else if EmailField \<notin> set (present d1) then (None, d1)
         else
           (let d2 = d1\<lparr>typed := typed d1 @ [(EmailField, username user)]\<rparr>
            in if PassField \<notin> set (present d2) then (None, d2)
               else
                 (let d3 = d2\<lparr>typed := typed d2 @ [(PassField, password user)]\<rparr>
                  in if LoginButton \<notin> set (present d3) then (None, d3)
                     else
                       (let d4 = d3\<lparr>clicked := clicked d3 @ [LoginButton]\<rparr>
                        in (Some (browser_cookies d4), d4)))))"

text \<open>
  The module's global namespace: each name bound at the top level of the module, with the
  string attributes of the object it is bound to. \<open>module_names\<close> lists the names that
  \<^verbatim>\<open>scrapper.py\<close> binds (its imports, \<^verbatim>\<open>logger\<close> and its two classes). Only
  \<^verbatim>\<open>settings.FB_MAIN_LINK\<close> is read through the namespace, so no attribute of the bound
  objects is listed.
\<close>

type_synonym namespace = "(string \<times> (string \<times> string) list) list"

definition module_names :: "string list" where
  "module_names =
     [''contextlib'', ''logging'', ''os'', ''time'', ''SystemRandom'', ''Dict'', ''List'',
      ''webdriver'', ''BeautifulSoup'', ''Tag'',
      ''ElementClickInterceptedException'', ''ElementNotInteractableException'',
      ''NoSuchElementException'', ''StaleElementReferenceException'', ''TimeoutException'',
      ''Options'', ''WebDriver'', ''ActionChains'', ''By'', ''Keys'', ''EC'', ''WebDriverWait'',
      ''logger'', ''WebDriverManager'', ''Scrapper'']"

definition scrapper_globals :: namespace where
  "scrapper_globals = map (\<lambda>n. (n, [])) module_names"

text \<open>
  \<^verbatim>\<open>name.attr\<close> for a global name: \<^verbatim>\<open>NameError\<close> when the name is not bound,
  \<^verbatim>\<open>AttributeError\<close> when the object has no such attribute.
\<close>

definition resolve :: "namespace \<Rightarrow> string \<Rightarrow> string \<Rightarrow> error + string" where
  "resolve ns name attr =
     (case map_of ns name of
        None \<Rightarrow> Inl NameError
      | Some obj \<Rightarrow> (case map_of obj attr of None \<Rightarrow> Inl AttributeError | Some v \<Rightarrow> Inr v))"

text \<open>
  \<^verbatim>\<open>handle_authorization\<close>, in a namespace \<open>ns\<close>. It returns nothing; what it does
  to the account and to the browser is the second and third component of the result.
\<close>

definition handle_authorization ::
    "namespace \<Rightarrow> account \<Rightarrow> driver \<Rightarrow> (error + unit) \<times> account \<times> driver" where
  "handle_authorization ns user d =
     (case resolve ns ''settings'' ''FB_MAIN_LINK'' of
        Inl e \<Rightarrow> (Inl e, user, d)
      | Inr url \<Rightarrow>
          (let d1 = drv_get d url
           in (case (if cookies user \<noteq> [] then add_cookie (cookies user) d1
                     else (Inr (), cookies user, d1)) of
                 (Inl e, cs, d2) \<Rightarrow> (Inl e, user\<lparr>cookies := cs\<rparr>, d2)
               | (Inr u, cs, d2) \<Rightarrow>
                   (let user1 = user\<lparr>cookies := cs\<rparr>
                    in (case handle_login user1 d2 of
                          (None, d3) \<Rightarrow> (Inr (), user1, d3)
                        | (Some fresh, d3) \<Rightarrow>
                            if fresh = [] then (Inr (), user1, d3)
                            else
                              (case add_cookie fresh d3 of
                                 (r, fresh', d4) \<Rightarrow>
                                   (r, user1\<lparr>new_cookies := Some fresh'\<rparr>, d4)))))))"

section \<open>Collecting and truncating\<close>

text \<open>\<^verbatim>\<open>load_group_page\<close>: \<^verbatim>\<open>find_element\<close> returns an element or raises, so the first
  pass through its loop either leaves the loop or leaves the function.\<close>

definition load_group_page :: "driver \<Rightarrow> fbgroup \<Rightarrow> (error + unit) \<times> driver" where
  "load_group_page d g =
     (let d1 = drv_get d (group_link g)
      in if current_url d1 \<noteq> group_link g then (Inl AssertionError, d1)
         else (find_element d1 FeedContainer, d1))"

text \<open>
  The list comprehension over the articles of the feed: the validity test and the
  extraction of one post come before the test of the next.
\<close>

fun extract_valid :: "node list \<Rightarrow> (error + pyobj list) option" where
  "extract_valid [] = Some (Inr [])"
| "extract_valid (post # posts) =
     (case is_valid_post post of
        Inl e \<Rightarrow> Some (Inl e)
      | Inr ok \<Rightarrow>
          if ok then
            bindR (get_lead_from_feed_post post) (\<lambda>lead.
            bindR (extract_valid posts) (\<lambda>rest. Some (Inr (lead # rest))))
          else extract_valid posts)"

text \<open>\<^verbatim>\<open>soup.find("div", {"role": "feed"}).find_all("div", {"role": "article"})\<close>;
  \<^verbatim>\<open>find\<close> gives \<^verbatim>\<open>None\<close>, which has no \<^verbatim>\<open>find_all\<close>, when there is no feed.\<close>

definition new_leads :: "node \<Rightarrow> (error + pyobj list) option" where
  "new_leads soup =
     (case find_tag soup ''div'' [(''role'', ''feed'')] of
        None \<Rightarrow> Some (Inl AttributeError)
      | Some feed \<Rightarrow> extract_valid (find_all feed ''div'' [(''role'', ''article'')]))"

text \<open>\<^verbatim>\<open>[lead for lead in recent_leads if lead.user_link and lead.post_link]\<close>\<close>

fun keep_linked :: "pyobj list \<Rightarrow> error + pyobj list" where
  "keep_linked [] = Inr []"
| "keep_linked (lead # rest) =
     bindE (py_getattr lead ''user_link'') (\<lambda>user_link.
     bindE (if truthy user_link
            then bindE (py_getattr lead ''post_link'') (\<lambda>post_link. Inr (truthy post_link))
            else Inr False) (\<lambda>keep.
     bindE (keep_linked rest) (\<lambda>rest'.
     Inr (if keep then lead # rest' else rest'))))"

fun is_dict :: "pyobj \<Rightarrow> bool" where
  "is_dict (Dict entries) = True"
| "is_dict (Obj attributes) = False"

text \<open>
  \<^verbatim>\<open>list(set(xs))\<close>. A \<^verbatim>\<open>dict\<close> is not hashable, so building the set raises
  \<^verbatim>\<open>TypeError\<close> when \<open>xs\<close> holds one. For hashable elements the result depends on the
  hashes and on the equality of their class, which the source does not fix: it is the
  parameter \<open>order\<close>.
\<close>

definition list_of_set :: "(pyobj list \<Rightarrow> pyobj list) \<Rightarrow> pyobj list \<Rightarrow> error + pyobj list" where
  "list_of_set order xs =
     (if list_ex is_dict xs then Inl TypeError
      else if xs = [] then Inr []
      else Inr (order xs))"

text \<open>One merge step: lines 121 to 126 of \<^verbatim>\<open>get_feed_posts\<close>.\<close>

definition merge_step ::
    "(pyobj list \<Rightarrow> pyobj list) \<Rightarrow> pyobj list \<Rightarrow> node \<Rightarrow> (error + pyobj list) option" where
  "merge_step order recent_leads soup =
     bindR (new_leads soup) (\<lambda>new.
     Some (bindE (keep_linked (recent_leads @ new)) (\<lambda>kept. list_of_set order kept)))"

text \<open>
  The collection loop, over the snapshots that the browser serves. Scrolling, the clicks on
  the expansion buttons and the hovering act on the page only, with their exceptions
  suppressed; what they make the page show is the next snapshot. The loop of the source has
  no bound; \<open>None\<close> says that it has not returned on the snapshots given.
\<close>

fun feed_loop ::
    "(pyobj list \<Rightarrow> pyobj list) \<Rightarrow> node list \<Rightarrow> pyobj list \<Rightarrow> int \<Rightarrow> (error + pyobj list) option" where
  "feed_loop order [] recent_leads at_least_posts = None"
| "feed_loop order (soup # later) recent_leads at_least_posts =
     bindR (merge_step order recent_leads soup) (\<lambda>merged.
       if at_least_posts \<le> int (length merged) then Some (Inr merged)
       else feed_loop order later merged at_least_posts)"

text \<open>
  \<^verbatim>\<open>get_feed_posts\<close>: the group page is loaded, the escape key is sent to the
  \<^verbatim>\<open>body\<close> element, which has to be found, and the loop starts with no leads.
\<close>

definition get_feed_posts ::
    "(pyobj list \<Rightarrow> pyobj list) \<Rightarrow> driver \<Rightarrow> fbgroup \<Rightarrow> int \<Rightarrow> (error + pyobj list) option \<times> driver" where
  "get_feed_posts order d g at_least_posts =
     (case load_group_page d g of
        (Inl e, d1) \<Rightarrow> (Some (Inl e), d1)
      | (Inr u, d1) \<Rightarrow>
          (case find_element d1 Body of
             Inl e \<Rightarrow> (Some (Inl e), d1)
           | Inr u' \<Rightarrow>
               (feed_loop order
                  (case map_of (snapshots d1) (current_url d1) of None \<Rightarrow> [] | Some ps \<Rightarrow> ps)
                  [] at_least_posts, d1)))"

text \<open>
  \<^verbatim>\<open>get_new_posts_from_recent\<close>. The comprehension visits every element of
  \<^verbatim>\<open>recent\<close>, reading its \<^verbatim>\<open>post_link\<close> attribute.
\<close>

fun last_lead_index :: "pyobj list \<Rightarrow> fbgroup \<Rightarrow> nat \<Rightarrow> error + nat list" where
  "last_lead_index [] g i = Inr []"
| "last_lead_index (post # rest) g i =
     bindE (py_getattr post ''post_link'') (\<lambda>post_link.
     bindE (last_lead_index rest g (Suc i)) (\<lambda>later.
     Inr (if truthy post_link \<and> post_link = last_post_link g then i # later else later)))"

definition get_new_posts_from_recent :: "pyobj list \<Rightarrow> fbgroup \<Rightarrow> error + pyobj list" where
  "get_new_posts_from_recent recent g =
     bindE (last_lead_index recent g 0) (\<lambda>found.
     Inr (case found of [] \<Rightarrow> recent | k # _ \<Rightarrow> take k recent))"

text \<open>The loop over the groups of \<^verbatim>\<open>get_new_posts\<close>; \<^verbatim>\<open>new_posts\<close> is a \<^verbatim>\<open>dict\<close>.\<close>

fun crawl_groups ::
    "(pyobj list \<Rightarrow> pyobj list) \<Rightarrow> fbgroup list \<Rightarrow> driver \<Rightarrow> (string \<times> pyobj list) list
       \<Rightarrow> (error + (string \<times> pyobj list) list) option \<times> driver" where
  "crawl_groups order [] d new_posts = (Some (Inr new_posts), d)"
| "crawl_groups order (g # gs) d new_posts =
     (case get_feed_posts order d g 8 of
        (None, d1) \<Rightarrow> (None, d1)
      | (Some (Inl e), d1) \<Rightarrow> (Some (Inl e), d1)
      | (Some (Inr posts), d1) \<Rightarrow>
          (case get_new_posts_from_recent posts g of
             Inl e \<Rightarrow> (Some (Inl e), d1)
           | Inr fresh \<Rightarrow> crawl_groups order gs d1 (AList.update (group_link g) fresh new_posts)))"

text \<open>
  \<^verbatim>\<open>get_new_posts\<close>. Entering the \<^verbatim>\<open>WebDriverManager\<close> asserts that the browser does
  not report itself as automated.
\<close>

definition get_new_posts ::
    "namespace \<Rightarrow> (pyobj list \<Rightarrow> pyobj list) \<Rightarrow> account \<Rightarrow> driver
       \<Rightarrow> (error + (string \<times> pyobj list) list) option \<times> account \<times> driver" where
  "get_new_posts ns order acct d =
     (if webdriver_flag d then (Some (Inl AssertionError), acct, d)
      else
        (case handle_authorization ns acct d of
           (Inl e, acct1, d1) \<Rightarrow> (Some (Inl e), acct1, d1)
         | (Inr u, acct1, d1) \<Rightarrow>
             (case crawl_groups order (groups acct1) d1 [] of
                (r, d2) \<Rightarrow> (r, acct1, d2))))"

section \<open>Notions used in the statements\<close>

text \<open>
  The spec's rule for the cross-site policy of a cookie: \<^verbatim>\<open>"unspecified"\<close>,
  \<^verbatim>\<open>"no_restriction"\<close> and \<^verbatim>\<open>"lax"\<close> map to \<^verbatim>\<open>"Lax"\<close>, any other value is passed
  through.
\<close>

definition normalized :: "string \<Rightarrow> string" where
  "normalized v =
     (if v = ''unspecified'' \<or> v = ''no_restriction'' \<or> v = ''lax'' then ''Lax'' else v)"

text \<open>What \<^verbatim>\<open>add_cookie\<close> may do to a cookie record: nothing, or store \<^verbatim>\<open>"Lax"\<close> under
  \<^verbatim>\<open>sameSite\<close>.\<close>

definition same_site_rewritten :: "cookie \<Rightarrow> cookie \<Rightarrow> bool" where
  "same_site_rewritten c c' = (c' = c \<or> c' = AList.update ''sameSite'' ''Lax'' c)"

text \<open>
  A lead hits the watermark of a group when its \<^verbatim>\<open>post_link\<close> attribute is a non-empty
  string equal to \<^verbatim>\<open>last_post_link\<close>.
\<close>

definition hits :: "fbgroup \<Rightarrow> pyobj \<Rightarrow> bool" where
  "hits g post =
     (case py_getattr post ''post_link'' of
        Inl e \<Rightarrow> False
      | Inr v \<Rightarrow> truthy v \<and> v = last_post_link g)"

text \<open>
  Where the first-child chain of a node leads: to its first element with a non-empty
  \<^verbatim>\<open>style\<close> attribute (\<open>Arrives\<close>), to an element without \<^verbatim>\<open>style\<close> and without
  children (\<open>RunsOut\<close>), or to a point where following it raises (\<open>Fails\<close>): an
  element whose \<^verbatim>\<open>style\<close> is empty and which has no children, or a string.
\<close>

datatype arrival = Arrives node | RunsOut | Fails error

fun descent :: "node \<Rightarrow> arrival" where
  "descent (NavigableString s) = Fails TypeError"
| "descent (Tag name as cs) =
     (case map_of as ''style'' of
        None \<Rightarrow> (case cs of [] \<Rightarrow> RunsOut | c # later \<Rightarrow> descent c)
      | Some style \<Rightarrow>
          if style = [] then (case cs of [] \<Rightarrow> Fails IndexError | c # later \<Rightarrow> descent c)
          else Arrives (Tag name as cs))"

text \<open>The text that \<^verbatim>\<open>_get_post_text\<close> has accumulated when its loop ends.\<close>

definition post_text_fragments :: "node list \<Rightarrow> error + string" where
  "post_text_fragments post_info =
     bindE (index post_info 1) (\<lambda>p1.
     bindE (contents p1) (\<lambda>els. classify_all post_info els))"

subsection \<open>Sample documents and sessions\<close>

text \<open>A user-info block whose two anchors carry the tracking query, and one whose anchors
  do not.\<close>

definition tracked_user_info :: node where
  "tracked_user_info =
     Tag ''div'' [] [Tag ''div'' []
       [Tag ''span'' [] [Tag ''a'' [(''href'', ''https://site/user?__cft__[0]=z'')] []],
        Tag ''span'' [] [Tag ''a'' [(''href'', ''https://site/post?__cft__[0]=abc&x=1'')] []]]]"

definition plain_user_info :: node where
  "plain_user_info =
     Tag ''div'' [] [Tag ''div'' []
       [Tag ''span'' [] [Tag ''a'' [(''href'', ''https://site/user'')] []],
        Tag ''span'' [] [Tag ''a'' [(''href'', ''https://site/post'')] []]]]"

text \<open>
  A rendered post: an element with a \<^verbatim>\<open>style\<close> attribute whose first child holds a
  \<open>div\<close> without \<^verbatim>\<open>class\<close>; the post-info block is the tail of the children of that
  \<open>div\<close>'s grandchild: the element that holds the user-info block at the fixed offset, and
  the text container.
\<close>

definition styled_post :: "node \<Rightarrow> node \<Rightarrow> node" where
  "styled_post user_info text_container =
     Tag ''div'' [(''style'', ''border-radius: 8px'')]
       [Tag ''div'' []
         [Tag ''div'' []
           [Tag ''div'' []
             [Tag ''div'' []
               [Tag ''div'' [] [],
                Tag ''div'' [] [Tag ''div'' [] [Tag ''div'' [] [], user_info]],
                text_container]]]]]"

text \<open>The post-info block of such a post.\<close>

definition styled_post_info :: "node \<Rightarrow> node \<Rightarrow> node list" where
  "styled_post_info user_info text_container =
     [Tag ''div'' [] [Tag ''div'' [] [Tag ''div'' [] [], user_info]], text_container]"

text \<open>An empty text container, one with a paragraph, and one whose child has no children.\<close>

definition no_paragraphs :: node where
  "no_paragraphs = Tag ''div'' [] []"

definition one_paragraph :: node where
  "one_paragraph =
     Tag ''div'' [] [Tag ''div'' [] [Tag ''div'' [] [Tag ''div'' [] [NavigableString ''hello'']]]]"

definition childless_paragraph :: node where
  "childless_paragraph = Tag ''div'' [] [Tag ''div'' [] []]"

text \<open>A user-info block without an anchor, and one whose only child is an anchor.\<close>

definition user_info_without_anchor :: node where
  "user_info_without_anchor = Tag ''div'' [] []"

definition user_info_without_post_anchor :: node where
  "user_info_without_post_anchor = Tag ''div'' [] [Tag ''a'' [(''href'', ''https://site/user'')] []]"

text \<open>The same post below an element that carries \<^verbatim>\<open>aria-hidden\<close> and no \<^verbatim>\<open>style\<close>,
  which is the first child of the node handed to the extraction.\<close>

definition hidden_wrapper :: node where
  "hidden_wrapper = Tag ''div'' [(''aria-hidden'', ''true'')] [styled_post tracked_user_info no_paragraphs]"

definition post_below_hidden :: node where
  "post_below_hidden = Tag ''div'' [(''class'', ''x1'')] [hidden_wrapper]"

text \<open>An element with a \<^verbatim>\<open>style\<close> attribute that carries \<^verbatim>\<open>aria-hidden\<close>, and the same
  below an element without \<^verbatim>\<open>style\<close>.\<close>

definition hidden_post :: node where
  "hidden_post = Tag ''div'' [(''style'', ''display: none''), (''aria-hidden'', ''true'')] []"

definition wrapped_hidden_post :: node where
  "wrapped_hidden_post = Tag ''div'' [(''class'', ''x1'')] [hidden_post]"

text \<open>A post whose post-info block has one element, without children: there is no
  user-info block at the fixed offset.\<close>

definition post_without_user_info :: node where
  "post_without_user_info =
     Tag ''div'' [(''style'', ''border-radius: 8px'')]
       [Tag ''div'' []
         [Tag ''div'' []
           [Tag ''div'' []
             [Tag ''div'' []
               [Tag ''div'' [] [],
                Tag ''div'' [] []]]]]]"

text \<open>An element with a \<^verbatim>\<open>style\<close> attribute and no \<^verbatim>\<open>aria-hidden\<close>, whose first child
  has no children.\<close>

definition bare_styled_post :: node where
  "bare_styled_post = Tag ''div'' [(''style'', ''border-radius: 8px'')] [Tag ''div'' [] []]"

text \<open>A feed with one article, as \<^verbatim>\<open>_is_valid_post\<close> accepts it.\<close>

definition article :: "string \<Rightarrow> node \<Rightarrow> node" where
  "article pos user_info =
     Tag ''div'' [(''class'', ''x1''), (''role'', ''article''), (''aria-posinset'', pos)]
       [styled_post user_info no_paragraphs]"

definition one_post_page :: node where
  "one_post_page =
     Tag ''[document]'' []
       [Tag ''div'' [(''role'', ''feed'')] [article ''1'' tracked_user_info]]"

definition sample_group :: fbgroup where
  "sample_group = \<lparr>group_link = ''https://site/groups/1'', last_post_link = None\<rparr>"

definition sample_driver :: driver where
  "sample_driver =
     \<lparr>webdriver_flag = False, current_url = [], landing = [],
      present = [LoginMessage, EmailField, PassField, LoginButton, FeedContainer, Body],
      snapshots = [(''https://site/groups/1'', [one_post_page])],
      browser_cookies = [[(''name'', ''xs''), (''sameSite'', ''no_restriction'')]],
      jar = [], typed = [], clicked = []\<rparr>"

definition sample_account :: account where
  "sample_account =
     \<lparr>username = ''u'', password = ''p'', proxy_url = ''http://user:pw@10.0.0.1:8080'',
      cookies = [[(''name'', ''c_user''), (''sameSite'', ''lax'')]],
      groups = [sample_group], new_cookies = None\<rparr>"

text \<open>A namespace in which \<^verbatim>\<open>settings\<close> is bound, unlike that of the module.\<close>

definition namespace_with_settings :: namespace where
  "namespace_with_settings = (''settings'', [(''FB_MAIN_LINK'', ''https://site/'')]) # scrapper_globals"

text \<open>Cookies with each of the policy values that the spec names, and one more.\<close>

definition sample_cookies :: "cookie list" where
  "sample_cookies =
     [[(''name'', ''a''), (''sameSite'', ''unspecified'')],
      [(''name'', ''b''), (''sameSite'', ''no_restriction'')],
      [(''name'', ''c''), (''sameSite'', ''lax'')],
      [(''name'', ''d''), (''sameSite'', ''Strict'')]]"

text \<open>Five leads as objects, newest first, and a group whose watermark is the third.\<close>

definition lead_obj :: "string \<Rightarrow> pyobj" where
  "lead_obj n =
     Obj [(''post_text'', Some ''t''), (''user_link'', Some ''https://site/user''),
          (''post_link'', Some (''https://site/post/'' @ n))]"

definition five_leads :: "pyobj list" where
  "five_leads = [lead_obj ''4'', lead_obj ''3'', lead_obj ''2'', lead_obj ''1'', lead_obj ''0'']"

definition group_at_third :: fbgroup where
  "group_at_third =
     \<lparr>group_link = ''https://site/groups/1'', last_post_link = Some ''https://site/post/2''\<rparr>"

text \<open>A lead whose \<^verbatim>\<open>post_link\<close> is the empty string, and a group whose watermark is the
  empty string.\<close>

definition blank_lead :: pyobj where
  "blank_lead = Obj [(''post_text'', Some ''t''), (''user_link'', Some ''u''), (''post_link'', Some [])]"

definition blank_group :: fbgroup where
  "blank_group = \<lparr>group_link = ''https://site/groups/1'', last_post_link = Some []\<rparr>"

section \<open>Properties\<close>

subsection \<open>\<^verbatim>\<open>str.find\<close> finds the first occurrence\<close>

lemma str_find_ge: "- 1 \<le> str_find s sub"
  by (induction s) (auto simp: Let_def)

lemma str_find_occurrence:
  "0 \<le> str_find s sub \<Longrightarrow>
     nat (str_find s sub) \<le> length s \<and> take (length sub) (drop (nat (str_find s sub)) s) = sub"
proof (induction s)
  case Nil
  then show ?case by (auto split: if_splits)
next
  case (Cons c s)
  show ?case
  proof (cases "take (length sub) (c # s) = sub")
    case True
    then show ?thesis by simp
  next
    case False
    with Cons.prems have r: "0 \<le> str_find s sub" and e: "str_find (c # s) sub = str_find s sub + 1"
      by (auto simp: Let_def split: if_splits)
    from Cons.IH [OF r] show ?thesis
      using r by (simp add: e nat_add_distrib)
  qed
qed

lemma str_find_first:
  "0 \<le> str_find s sub \<Longrightarrow> j < nat (str_find s sub) \<Longrightarrow> take (length sub) (drop j s) \<noteq> sub"
proof (induction s arbitrary: j)
  case Nil
  then show ?case by (auto split: if_splits)
next
  case (Cons c s)
  show ?case
  proof (cases "take (length sub) (c # s) = sub")
    case True
    with Cons.prems show ?thesis by simp
  next
    case False
    with Cons.prems have r: "0 \<le> str_find s sub" and e: "str_find (c # s) sub = str_find s sub + 1"
      by (auto simp: Let_def split: if_splits)
    show ?thesis
    proof (cases j)
      case 0
      with False show ?thesis by simp
    next
      case (Suc j')
      with Cons.prems e r have "j' < nat (str_find s sub)" by (simp add: nat_add_distrib)
      from Cons.IH [OF r this] Suc show ?thesis by simp
    qed
  qed
qed

lemma str_find_absent:
  "str_find s sub < 0 \<Longrightarrow> j \<le> length s \<Longrightarrow> take (length sub) (drop j s) \<noteq> sub"
proof (induction s arbitrary: j)
  case Nil
  then show ?case by (auto split: if_splits)
next
  case (Cons c s)
  from Cons.prems have ne: "take (length sub) (c # s) \<noteq> sub" and r: "str_find s sub < 0"
    by (auto simp: Let_def split: if_splits)
  show ?case
  proof (cases j)
    case 0
    with ne show ?thesis by simp
  next
    case (Suc j')
    with Cons.prems have "j' \<le> length s" by simp
    from Cons.IH [OF r this] Suc show ?thesis by simp
  qed
qed

subsection \<open>Link trimming\<close>

text \<open>When the marker occurs, the link is cut just before its first occurrence.\<close>

lemma trim_link_found:
  "0 \<le> str_find link cft_marker \<Longrightarrow> trim_link link = take (nat (str_find link cft_marker)) link"
  by (simp add: trim_link_def slice_to_def)

text \<open>When the marker does not occur, \<^verbatim>\<open>find\<close> gives \<open>-1\<close> and the slice
  \<^verbatim>\<open>link[:-1]\<close> drops the last character of the link.\<close>

lemma trim_link_absent:
  "str_find link cft_marker < 0 \<Longrightarrow> trim_link link = butlast link"
proof -
  assume "str_find link cft_marker < 0"
  with str_find_ge [of link cft_marker] have "str_find link cft_marker = - 1" by linarith
  then show ?thesis by (simp add: trim_link_def slice_to_def butlast_conv_take)
qed

lemma tracked_links:
  "get_user_link tracked_user_info = Inr ''https://site/user''
   \<and> get_post_link tracked_user_info = Inr ''https://site/post''"
  by code_simp

text \<open>
  C3. The claim: a link without the marker \<^verbatim>\<open>"?__cft__[0]"\<close> is extracted unchanged.
  The code, on anchors whose \<^verbatim>\<open>href\<close> are \<^verbatim>\<open>https://site/user\<close> and
  \<^verbatim>\<open>https://site/post\<close>: both extracted links have lost their last character.
\<close>

theorem links_without_marker_lose_last_character:
  "get_user_link plain_user_info = Inr ''https://site/use''
   \<and> get_post_link plain_user_info = Inr ''https://site/pos''"
  by code_simp

subsection \<open>Session establishment\<close>

text \<open>
  C7. In the namespace of the module, where \<^verbatim>\<open>settings\<close> is not bound, session
  establishment raises \<^verbatim>\<open>NameError\<close> for every account and every browser state, and
  leaves both as they were: no address is opened, no cookie is restored, and the login wall
  is not looked for.
\<close>

theorem handle_authorization_raises_NameError:
  "handle_authorization scrapper_globals user d = (Inl NameError, user, d)"
  by (simp add: handle_authorization_def resolve_def scrapper_globals_def module_names_def)

subsection \<open>Cookie normalization\<close>

lemma add_cookie_step:
  assumes "map_of c ''sameSite'' = Some v"
  shows "\<exists>c'. add_cookie (c # cs) d =
            (case add_cookie cs (d\<lparr>jar := jar d @ [c']\<rparr>) of (r, rest', d2) \<Rightarrow> (r, c' # rest', d2))
          \<and> map_of c' ''sameSite'' = Some (normalized v)
          \<and> (\<forall>k. k \<noteq> ''sameSite'' \<longrightarrow> map_of c' k = map_of c k)
          \<and> (normalized v = v \<longrightarrow> c' = c)"
  using assms
  by (auto simp: normalized_def Let_def update_conv' split: if_splits)

text \<open>
  C10. For a list of cookies that all have a \<^verbatim>\<open>sameSite\<close> entry, \<^verbatim>\<open>add_cookie\<close>
  returns without raising and hands to the browser, in order, one cookie for each cookie of
  the list. In that cookie the \<^verbatim>\<open>sameSite\<close> value is the \<open>normalized\<close> one
  (\<^verbatim>\<open>"unspecified"\<close>, \<^verbatim>\<open>"no_restriction"\<close> and \<^verbatim>\<open>"lax"\<close> have become \<^verbatim>\<open>"Lax"\<close>,
  any other value is as it was), every other entry is as it was, and a cookie whose value
  did not change is passed through unchanged.
\<close>

theorem add_cookie_normalizes_same_site:
  assumes "\<forall>c\<in>set cs. map_of c ''sameSite'' \<noteq> None"
  shows "\<exists>cs'. add_cookie cs d = (Inr (), cs', d\<lparr>jar := jar d @ cs'\<rparr>)
           \<and> length cs' = length cs
           \<and> (\<forall>i<length cs.
                 map_of (cs' ! i) ''sameSite'' = map_option normalized (map_of (cs ! i) ''sameSite'')
               \<and> (\<forall>k. k \<noteq> ''sameSite'' \<longrightarrow> map_of (cs' ! i) k = map_of (cs ! i) k)
               \<and> (map_of (cs' ! i) ''sameSite'' = map_of (cs ! i) ''sameSite'' \<longrightarrow> cs' ! i = cs ! i))"
  using assms
proof (induction cs arbitrary: d)
  case Nil
  show ?case by simp
next
  case (Cons c cs)
  from Cons.prems obtain v where v: "map_of c ''sameSite'' = Some v" by auto
  from add_cookie_step [OF v, of cs d] obtain c' where
    step: "add_cookie (c # cs) d =
             (case add_cookie cs (d\<lparr>jar := jar d @ [c']\<rparr>) of (r, rest', d2) \<Rightarrow> (r, c' # rest', d2))"
    and same: "map_of c' ''sameSite'' = Some (normalized v)"
    and other: "\<forall>k. k \<noteq> ''sameSite'' \<longrightarrow> map_of c' k = map_of c k"
    and keep: "normalized v = v \<longrightarrow> c' = c"
    by blast
  from Cons.prems have "\<forall>c\<in>set cs. map_of c ''sameSite'' \<noteq> None" by simp
  from Cons.IH [OF this, of "d\<lparr>jar := jar d @ [c']\<rparr>"] obtain rest' where
    rest: "add_cookie cs (d\<lparr>jar := jar d @ [c']\<rparr>) = (Inr (), rest', d\<lparr>jar := jar d @ c' # rest'\<rparr>)"
    and len: "length rest' = length cs"
    and each: "\<forall>i<length cs.
                 map_of (rest' ! i) ''sameSite'' = map_option normalized (map_of (cs ! i) ''sameSite'')
               \<and> (\<forall>k. k \<noteq> ''sameSite'' \<longrightarrow> map_of (rest' ! i) k = map_of (cs ! i) k)
               \<and> (map_of (rest' ! i) ''sameSite'' = map_of (cs ! i) ''sameSite'' \<longrightarrow> rest' ! i = cs ! i)"
    by auto
  have ret: "add_cookie (c # cs) d = (Inr (), c' # rest', d\<lparr>jar := jar d @ c' # rest'\<rparr>)"
    by (simp only: step rest prod.case)
  have all: "\<forall>i<length (c # cs).
                 map_of ((c' # rest') ! i) ''sameSite'' = map_option normalized (map_of ((c # cs) ! i) ''sameSite'')
               \<and> (\<forall>k. k \<noteq> ''sameSite'' \<longrightarrow> map_of ((c' # rest') ! i) k = map_of ((c # cs) ! i) k)
               \<and> (map_of ((c' # rest') ! i) ''sameSite'' = map_of ((c # cs) ! i) ''sameSite'' \<longrightarrow> (c' # rest') ! i = (c # cs) ! i)"
  proof (intro allI impI)
    fix i assume "i < length (c # cs)"
    then show "map_of ((c' # rest') ! i) ''sameSite'' = map_option normalized (map_of ((c # cs) ! i) ''sameSite'')
               \<and> (\<forall>k. k \<noteq> ''sameSite'' \<longrightarrow> map_of ((c' # rest') ! i) k = map_of ((c # cs) ! i) k)
               \<and> (map_of ((c' # rest') ! i) ''sameSite'' = map_of ((c # cs) ! i) ''sameSite'' \<longrightarrow> (c' # rest') ! i = (c # cs) ! i)"
      using v same other keep each by (cases i) auto
  qed
  from ret len all show ?case by auto
qed

text \<open>The theorem at four cookies, one for each value that the spec names and one with
  \<^verbatim>\<open>"Strict"\<close>.\<close>

theorem add_cookie_normalizes_same_site_witness:
  "list_all (\<lambda>c. map_of c ''sameSite'' \<noteq> None) sample_cookies
   \<and> (\<exists>cs'. add_cookie sample_cookies sample_driver
               = (Inr (), cs', sample_driver\<lparr>jar := jar sample_driver @ cs'\<rparr>)
           \<and> length cs' = length sample_cookies
           \<and> (\<forall>i<length sample_cookies.
                 map_of (cs' ! i) ''sameSite'' = map_option normalized (map_of (sample_cookies ! i) ''sameSite'')
               \<and> (\<forall>k. k \<noteq> ''sameSite'' \<longrightarrow> map_of (cs' ! i) k = map_of (sample_cookies ! i) k)
               \<and> (map_of (cs' ! i) ''sameSite'' = map_of (sample_cookies ! i) ''sameSite'' \<longrightarrow> cs' ! i = sample_cookies ! i)))"
proof -
  have h: "\<forall>c\<in>set sample_cookies. map_of c ''sameSite'' \<noteq> None"
    by (simp add: sample_cookies_def)
  from add_cookie_normalizes_same_site [OF h, of sample_driver] h show ?thesis
    unfolding list_all_iff by blast
qed

lemma add_cookie_sample:
  "fst (snd (add_cookie sample_cookies sample_driver)) =
     [[(''name'', ''a''), (''sameSite'', ''Lax'')],
      [(''name'', ''b''), (''sameSite'', ''Lax'')],
      [(''name'', ''c''), (''sameSite'', ''Lax'')],
      [(''name'', ''d''), (''sameSite'', ''Strict'')]]"
  by (simp add: sample_cookies_def Let_def)

subsection \<open>Watermark truncation\<close>

lemma last_lead_index_readable:
  assumes "\<forall>post\<in>set recent. \<exists>v. py_getattr post ''post_link'' = Inr v"
  shows "\<exists>found. last_lead_index recent g i = Inr found
           \<and> (found = [] \<longleftrightarrow> (\<forall>post\<in>set recent. \<not> hits g post))
           \<and> (found \<noteq> [] \<longrightarrow>
                 (\<exists>k<length recent. hd found = i + k \<and> hits g (recent ! k)
                     \<and> (\<forall>j<k. \<not> hits g (recent ! j))))"
  using assms
proof (induction recent arbitrary: i)
  case Nil
  show ?case by simp
next
  case (Cons post rest)
  from Cons.prems obtain v where v: "py_getattr post ''post_link'' = Inr v" by auto
  from Cons.prems have "\<forall>p\<in>set rest. \<exists>v. py_getattr p ''post_link'' = Inr v" by simp
  from Cons.IH [OF this, of "Suc i"] obtain later where
    later: "last_lead_index rest g (Suc i) = Inr later"
    and none: "later = [] \<longleftrightarrow> (\<forall>p\<in>set rest. \<not> hits g p)"
    and some: "later \<noteq> [] \<longrightarrow>
                 (\<exists>k<length rest. hd later = Suc i + k \<and> hits g (rest ! k)
                     \<and> (\<forall>j<k. \<not> hits g (rest ! j)))"
    by blast
  show ?case
  proof (cases "hits g post")
    case True
    with v have tv: "truthy v" "v = last_post_link g"
      by (auto simp: hits_def)
    have "last_lead_index (post # rest) g i = Inr (i # later)"
      using tv by (simp add: bindE_def later v)
    moreover have "\<exists>k<length (post # rest). hd (i # later) = i + k \<and> hits g ((post # rest) ! k)
                     \<and> (\<forall>j<k. \<not> hits g ((post # rest) ! j))"
      using True by (intro exI [of _ 0]) simp
    ultimately show ?thesis using True by auto
  next
    case False
    with v have "\<not> (truthy v \<and> v = last_post_link g)"
      by (simp add: hits_def)
    then have eq: "last_lead_index (post # rest) g i = Inr later"
      by (simp add: bindE_def later v)
    have "later \<noteq> [] \<longrightarrow>
            (\<exists>k<length (post # rest). hd later = i + k \<and> hits g ((post # rest) ! k)
                \<and> (\<forall>j<k. \<not> hits g ((post # rest) ! j)))"
    proof
      assume "later \<noteq> []"
      with some obtain k where k: "k < length rest" "hd later = Suc i + k" "hits g (rest ! k)"
        "\<forall>j<k. \<not> hits g (rest ! j)" by blast
      have "\<forall>j<Suc k. \<not> hits g ((post # rest) ! j)"
      proof (intro allI impI)
        fix j assume "j < Suc k"
        then show "\<not> hits g ((post # rest) ! j)" using False k(4) by (cases j) auto
      qed
      with k show "\<exists>k<length (post # rest). hd later = i + k \<and> hits g ((post # rest) ! k)
                \<and> (\<forall>j<k. \<not> hits g ((post # rest) ! j))"
        by (intro exI [of _ "Suc k"]) simp
    qed
    with eq none False show ?thesis by auto
  qed
qed

text \<open>
  C1, as amended. For every sequence of leads whose \<^verbatim>\<open>post_link\<close> attribute can be read
  and every group: either some lead hits the watermark, and the result is the strict prefix
  \<^verbatim>\<open>recent[0:k]\<close> for the first index \<open>k\<close> at which a lead's \<^verbatim>\<open>post_link\<close> is a
  non-empty string equal to the watermark; or no lead hits the watermark (it is null, it is
  empty, or no non-empty \<^verbatim>\<open>post_link\<close> equals it), and the result is the sequence unchanged.
\<close>

theorem get_new_posts_from_recent_prefix:
  assumes "\<forall>post\<in>set recent. \<exists>v. py_getattr post ''post_link'' = Inr v"
  shows "(\<exists>k<length recent. hits g (recent ! k) \<and> (\<forall>j<k. \<not> hits g (recent ! j))
             \<and> get_new_posts_from_recent recent g = Inr (take k recent))
         \<or> ((\<forall>post\<in>set recent. \<not> hits g post)
             \<and> get_new_posts_from_recent recent g = Inr recent)"
proof -
  from last_lead_index_readable [OF assms, of g 0] obtain found where
    found: "last_lead_index recent g 0 = Inr found"
    and none: "found = [] \<longleftrightarrow> (\<forall>post\<in>set recent. \<not> hits g post)"
    and some: "found \<noteq> [] \<longrightarrow>
                 (\<exists>k<length recent. hd found = 0 + k \<and> hits g (recent ! k)
                     \<and> (\<forall>j<k. \<not> hits g (recent ! j)))"
    by blast
  show ?thesis
  proof (cases found)
    case Nil
    with found none show ?thesis
      by (simp add: get_new_posts_from_recent_def bindE_def)
  next
    case (Cons k later)
    with some obtain k' where k': "k' < length recent" "k = k'" "hits g (recent ! k')"
      "\<forall>j<k'. \<not> hits g (recent ! j)" by auto
    from found Cons have "get_new_posts_from_recent recent g = Inr (take k recent)"
      by (simp add: get_new_posts_from_recent_def bindE_def)
    with k' show ?thesis by blast
  qed
qed

text \<open>The spec's scenario: five leads, the watermark is the post link of the third.\<close>

lemma five_readable: "\<forall>post\<in>set five_leads. \<exists>v. py_getattr post ''post_link'' = Inr v"
  by (simp add: five_leads_def lead_obj_def)

lemma five_eval: "get_new_posts_from_recent five_leads group_at_third = Inr [lead_obj ''4'', lead_obj ''3'']"
  by (simp add: five_leads_def lead_obj_def group_at_third_def get_new_posts_from_recent_def bindE_def)

theorem get_new_posts_from_recent_prefix_witness:
  "list_all (\<lambda>post. \<exists>v. py_getattr post ''post_link'' = Inr v) five_leads
   \<and> hits group_at_third (five_leads ! 2)
   \<and> get_new_posts_from_recent five_leads group_at_third = Inr (take 2 five_leads)"
proof -
  have h: "\<forall>post\<in>set five_leads. \<exists>v. py_getattr post ''post_link'' = Inr v"
    by (simp add: five_leads_def lead_obj_def)
  have hit: "hits group_at_third (five_leads ! 2)"
    by (simp add: five_leads_def lead_obj_def group_at_third_def hits_def)
  have miss: "\<not> hits group_at_third (five_leads ! 0)" "\<not> hits group_at_third (five_leads ! 1)"
    by (simp_all add: five_leads_def lead_obj_def group_at_third_def hits_def)
  from get_new_posts_from_recent_prefix [OF h, of group_at_third]
  consider k where "k < length five_leads" "hits group_at_third (five_leads ! k)"
      "\<forall>j<k. \<not> hits group_at_third (five_leads ! j)"
      "get_new_posts_from_recent five_leads group_at_third = Inr (take k five_leads)"
    | "\<forall>post\<in>set five_leads. \<not> hits group_at_third post"
    by blast
  then have "get_new_posts_from_recent five_leads group_at_third = Inr (take 2 five_leads)"
  proof cases
    case 1
    have "k = 2"
    proof (rule ccontr)
      assume "k \<noteq> 2"
      then consider "k < 2" | "2 < k" by linarith
      then show False
      proof cases
        case 1
        then have "k = 0 \<or> k = 1" by auto
        with miss \<open>hits group_at_third (five_leads ! k)\<close> show False by auto
      next
        case 2
        with 1(3) hit show False by blast
      qed
    qed
    with 1(4) show ?thesis by simp
  next
    case 2
    moreover have "five_leads ! 2 \<in> set five_leads" by (simp add: five_leads_def)
    ultimately show ?thesis using hit by blast
  qed
  with h hit show ?thesis unfolding list_all_iff by blast
qed

text \<open>
  C1 as stated fails where the link is the empty string: the only lead's \<^verbatim>\<open>post_link\<close>
  equals the watermark, so the claim gives the prefix \<^verbatim>\<open>recent[0:0]\<close>, which is empty,
  while the code returns the sequence unchanged.
\<close>

theorem blank_watermark_matches_nothing:
  "py_getattr (blank_lead) ''post_link'' = Inr (last_post_link blank_group)
   \<and> get_new_posts_from_recent [blank_lead] blank_group = Inr [blank_lead]
   \<and> [blank_lead] \<noteq> take 0 [blank_lead]"
  by (simp add: blank_lead_def blank_group_def get_new_posts_from_recent_def bindE_def)

text \<open>A \<^verbatim>\<open>dict\<close> has no \<^verbatim>\<open>post_link\<close> attribute: on a sequence that starts with one,
  the comprehension raises.\<close>

lemma dict_leads_raise:
  "get_new_posts_from_recent (Dict entries # rest) g = Inl AttributeError"
  by (simp add: get_new_posts_from_recent_def bindE_def)

subsection \<open>The descent of \<^verbatim>\<open>_get_post_info\<close>\<close>

text \<open>
  The loop follows the first-child chain through the elements that have no \<^verbatim>\<open>style\<close>
  attribute or an empty one, whatever else they carry, and decides at the first element with
  a non-empty \<^verbatim>\<open>style\<close>.
\<close>

lemma get_post_info_descent:
  "get_post_info n =
     (case descent n of
        Arrives m \<Rightarrow> get_post_info m
      | RunsOut \<Rightarrow> Some (Inr None)
      | Fails e \<Rightarrow> Some (Inl e))"
proof (induction n rule: descent.induct)
  case (1 s)
  show ?case
    by (subst get_post_info.simps) (simp add: try_body_def bindE_def)
next
  case (2 name as cs)
  show ?case
  proof (cases "map_of as ''style''")
    case None
    show ?thesis
    proof (cases cs)
      case Nil
      with None show ?thesis
        by (subst get_post_info.simps) (simp add: try_body_def bindE_def child_def index_def)
    next
      case (Cons c later)
      with None 2(1) have "get_post_info c =
        (case descent c of Arrives m \<Rightarrow> get_post_info m | RunsOut \<Rightarrow> Some (Inr None)
         | Fails e \<Rightarrow> Some (Inl e))" by simp
      with None Cons show ?thesis
        by (subst get_post_info.simps) (simp add: try_body_def bindE_def child_def index_def)
    qed
  next
    case (Some style)
    show ?thesis
    proof (cases "style = []")
      case False
      with Some show ?thesis by simp
    next
      case True
      show ?thesis
      proof (cases cs)
        case Nil
        with Some True show ?thesis
          by (subst get_post_info.simps) (simp add: try_body_def bindE_def child_def index_def)
      next
        case (Cons c later)
        with Some True 2(2) have "get_post_info c =
          (case descent c of Arrives m \<Rightarrow> get_post_info m | RunsOut \<Rightarrow> Some (Inr None)
           | Fails e \<Rightarrow> Some (Inl e))" by simp
        with Some True Cons show ?thesis
          by (subst get_post_info.simps) (simp add: try_body_def bindE_def child_def index_def)
      qed
    qed
  qed
qed

lemma descent_Arrives:
  "descent n = Arrives m \<Longrightarrow>
     \<exists>name as cs style. m = Tag name as cs \<and> map_of as ''style'' = Some style \<and> style \<noteq> []"
  by (induction n rule: descent.induct) (auto split: option.splits list.splits if_splits)

text \<open>At an element with a non-empty \<^verbatim>\<open>style\<close>, \<^verbatim>\<open>aria-hidden\<close> ends the loop.\<close>

lemma get_post_info_hidden:
  assumes "map_of as ''style'' = Some style" "style \<noteq> []" "''aria-hidden'' \<in> fst ` set as"
  shows "get_post_info (Tag name as cs) = Some (Inr None)"
  using assms
  by (subst get_post_info.simps) (simp add: try_body_def bindE_def has_attr_def)

text \<open>
  When the \<^verbatim>\<open>for\<close> loop runs out without a \<open>div\<close> that qualifies, the body starts again
  on the same node: the function never returns.
\<close>

lemma get_post_info_returns_elsewhere:
  assumes "try_body n = Inr Again" and "get_post_info x = Some y"
  shows "x \<noteq> n"
proof (rule get_post_info.raw_induct [where P = "\<lambda>x y. x \<noteq> n", OF _ assms(2)], rule notI, goal_cases)
  case (1 f x' y')
  from 1(2) 1(3) assms(1) have "f n = Some y'" by simp
  with 1(1) show False by blast
qed

lemma get_post_info_never_returns:
  assumes "try_body n = Inr Again"
  shows "get_post_info n = None"
  using get_post_info_returns_elsewhere [OF assms, of n] by (cases "get_post_info n") auto

lemma bare_styled_post_again: "try_body bare_styled_post = Inr Again"
  by (simp add: bare_styled_post_def try_body_def bindE_def has_attr_def child_def index_def)

lemma bare_loops: "get_lead_from_feed_post bare_styled_post = None"
  by (simp add: get_lead_from_feed_post_def bindR_def get_post_info_never_returns [OF bare_styled_post_again])


subsection \<open>The extracted lead\<close>

lemma get_post_text_fragments:
  "get_post_text post_info =
     bindE (post_text_fragments post_info) (\<lambda>t. Inr (if t \<noteq> [] then t else no_text))"
  by (simp add: get_post_text_def post_text_fragments_def bindE_def split: sum.splits)

lemma get_post_text_nonempty: "get_post_text post_info = Inr t \<Longrightarrow> t \<noteq> []"
  by (auto simp: get_post_text_fragments bindE_def no_text_def split: sum.splits if_splits)

lemma get_lead_no_block:
  assumes "get_post_info n = Some (Inr found)" "no_post_info found"
  shows "get_lead_from_feed_post n = Some (Inr (make_lead None None None))"
  using assms by (simp add: get_lead_from_feed_post_def bindR_def)

text \<open>
  C8, as amended. When the first-child chain of a node leads, through elements whose
  \<^verbatim>\<open>style\<close> attribute is absent or empty, to an element with a non-empty \<^verbatim>\<open>style\<close>
  attribute that carries \<^verbatim>\<open>aria-hidden\<close>, the descent stops there and the extraction
  returns the lead whose three fields are null.
\<close>

theorem hidden_styled_element_gives_null_lead:
  assumes "descent n = Arrives m" and "has_attr ''aria-hidden'' m = Inr True"
  shows "get_lead_from_feed_post n = Some (Inr (make_lead None None None))"
proof -
  from descent_Arrives [OF assms(1)] obtain name as cs style where
    m: "m = Tag name as cs" "map_of as ''style'' = Some style" "style \<noteq> []" by blast
  from assms(2) m(1) have "''aria-hidden'' \<in> fst ` set as"
    by (simp add: has_attr_def bindE_def)
  from get_post_info_hidden [OF m(2) m(3) this] m(1)
  have "get_post_info m = Some (Inr None)" by simp
  with assms(1) have "get_post_info n = Some (Inr None)"
    by (simp add: get_post_info_descent [of n])
  then show ?thesis by (rule get_lead_no_block) simp
qed

text \<open>The theorem at a hidden, styled element below an element without \<^verbatim>\<open>style\<close>.\<close>

theorem hidden_styled_element_gives_null_lead_witness:
  "descent wrapped_hidden_post = Arrives hidden_post
   \<and> has_attr ''aria-hidden'' hidden_post = Inr True
   \<and> get_lead_from_feed_post wrapped_hidden_post = Some (Inr (make_lead None None None))"
proof -
  have a: "descent wrapped_hidden_post = Arrives hidden_post"
    by (simp add: wrapped_hidden_post_def hidden_post_def)
  have h: "has_attr ''aria-hidden'' hidden_post = Inr True"
    by (simp add: hidden_post_def has_attr_def bindE_def)
  from hidden_styled_element_gives_null_lead [OF a h] a h show ?thesis by simp
qed

text \<open>
  C8 as stated fails: the first child of the node carries \<^verbatim>\<open>aria-hidden\<close> but no
  \<^verbatim>\<open>style\<close>, so the \<^verbatim>\<open>KeyError\<close> handler descends past it, and the post below it is
  extracted with both links.
\<close>

theorem aria_hidden_without_style_is_passed:
  "child post_below_hidden 0 = Inr hidden_wrapper
   \<and> has_attr ''aria-hidden'' hidden_wrapper = Inr True
   \<and> get_lead_from_feed_post post_below_hidden
       = Some (Inr (make_lead (Some ''No text available'') (Some ''https://site/user'')
                      (Some ''https://site/post'')))"
  by code_simp

text \<open>
  C9 as stated fails on an unextractable post: the \<^verbatim>\<open>post_text\<close> of a hidden post is
  null, not the sentinel.
\<close>

theorem hidden_post_has_null_text:
  "get_lead_from_feed_post hidden_post = Some (Inr (make_lead None None None))
   \<and> make_lead None None None \<noteq> make_lead (Some ''No text available'') None None"
  by code_simp

text \<open>
  C9, as amended. Whenever the extraction returns a lead, its \<^verbatim>\<open>post_text\<close> is never the
  empty string: it is null, with both links, when no post-info block was found; otherwise it
  is a non-empty string, namely the text accumulated from the children of the text container
  or, when nothing was accumulated, the sentinel \<^verbatim>\<open>"No text available"\<close>.
\<close>

theorem post_text_null_or_nonempty:
  assumes "get_lead_from_feed_post n = Some (Inr lead)"
  shows "\<exists>found. get_post_info n = Some (Inr found)
           \<and> (no_post_info found \<and> lead = make_lead None None None
              \<or> \<not> no_post_info found
                \<and> (\<exists>frags t user_link post_link.
                      post_text_fragments (the found) = Inr frags
                    \<and> t = (if frags \<noteq> [] then frags else no_text)
                    \<and> t \<noteq> []
                    \<and> lead = make_lead (Some t) (Some user_link) (Some post_link)))"
proof -
  from assms obtain found where found: "get_post_info n = Some (Inr found)"
    by (auto simp: get_lead_from_feed_post_def bindR_def split: option.splits sum.splits)
  show ?thesis
  proof (cases "no_post_info found")
    case True
    with found assms show ?thesis
      by (simp add: get_lead_from_feed_post_def bindR_def)
  next
    case False
    with found assms obtain user_link post_link t where
      t: "get_post_text (the found) = Inr t"
      and lead: "lead = make_lead (Some t) (Some user_link) (Some post_link)"
      by (auto simp: get_lead_from_feed_post_def bindR_def bindE_def Let_def split: sum.splits)
    from t obtain frags where
      frags: "post_text_fragments (the found) = Inr frags"
      and tf: "t = (if frags \<noteq> [] then frags else no_text)"
      by (auto simp: get_post_text_fragments bindE_def split: sum.splits)
    from t have "t \<noteq> []" by (rule get_post_text_nonempty)
    with found False frags tf lead show ?thesis by blast
  qed
qed

text \<open>The theorem at a post whose text container is empty: the text is the sentinel.\<close>

theorem post_text_null_or_nonempty_witness:
  "get_lead_from_feed_post (styled_post tracked_user_info no_paragraphs)
     = Some (Inr (make_lead (Some no_text) (Some ''https://site/user'') (Some ''https://site/post'')))
   \<and> (\<exists>found. get_post_info (styled_post tracked_user_info no_paragraphs) = Some (Inr found)
           \<and> (no_post_info found
                \<and> make_lead (Some no_text) (Some ''https://site/user'') (Some ''https://site/post'')
                    = make_lead None None None
              \<or> \<not> no_post_info found
                \<and> (\<exists>frags t user_link post_link.
                      post_text_fragments (the found) = Inr frags
                    \<and> t = (if frags \<noteq> [] then frags else no_text)
                    \<and> t \<noteq> []
                    \<and> make_lead (Some no_text) (Some ''https://site/user'') (Some ''https://site/post'')
                        = make_lead (Some t) (Some user_link) (Some post_link))))"
proof -
  have e: "get_lead_from_feed_post (styled_post tracked_user_info no_paragraphs)
     = Some (Inr (make_lead (Some no_text) (Some ''https://site/user'') (Some ''https://site/post'')))"
    by code_simp
  from post_text_null_or_nonempty [OF e] e show ?thesis by simp
qed

text \<open>
  C2 as stated fails: on a post whose post-info block has no user-info block at the fixed
  offset, \<^verbatim>\<open>_get_user_info\<close> raises \<^verbatim>\<open>IndexError\<close> and so does the extraction.
\<close>

theorem missing_user_info_raises:
  "get_lead_from_feed_post post_without_user_info = Some (Inl IndexError)"
  by code_simp

text \<open>
  C2, as amended. The extraction returns the all-null lead, without raising, when the
  descent runs out of children below elements that have no \<^verbatim>\<open>style\<close> attribute. When
  \<^verbatim>\<open>_get_post_info\<close> returns a non-empty block, the extraction returns a lead with text and
  both links exactly when the user-info block, both anchors and the text are found at their
  fixed offsets; an exception raised by \<^verbatim>\<open>_get_user_info\<close>, \<^verbatim>\<open>_get_user_link\<close>,
  \<^verbatim>\<open>_get_post_link\<close> or \<^verbatim>\<open>_get_post_text\<close> is raised by the extraction.
\<close>

theorem get_lead_from_feed_post_outcomes:
  "(descent n = RunsOut \<longrightarrow>
      get_lead_from_feed_post n = Some (Inr (make_lead None None None)))
   \<and> (get_post_info n = Some (Inr (Some post_info)) \<and> post_info \<noteq> [] \<longrightarrow>
        (get_user_info post_info = Inl e \<longrightarrow> get_lead_from_feed_post n = Some (Inl e))
      \<and> (get_user_info post_info = Inr user_info \<and> get_user_link user_info = Inl e \<longrightarrow>
           get_lead_from_feed_post n = Some (Inl e))
      \<and> (get_user_info post_info = Inr user_info \<and> get_user_link user_info = Inr user_link
            \<and> get_post_link user_info = Inl e \<longrightarrow>
           get_lead_from_feed_post n = Some (Inl e))
      \<and> (get_user_info post_info = Inr user_info \<and> get_user_link user_info = Inr user_link
            \<and> get_post_link user_info = Inr post_link \<and> get_post_text post_info = Inl e \<longrightarrow>
           get_lead_from_feed_post n = Some (Inl e))
      \<and> (get_user_info post_info = Inr user_info \<and> get_user_link user_info = Inr user_link
            \<and> get_post_link user_info = Inr post_link \<and> get_post_text post_info = Inr post_text \<longrightarrow>
           get_lead_from_feed_post n
             = Some (Inr (make_lead (Some post_text) (Some user_link) (Some post_link)))))"
proof -
  have a: "descent n = RunsOut \<longrightarrow>
      get_lead_from_feed_post n = Some (Inr (make_lead None None None))"
  proof
    assume "descent n = RunsOut"
    then have "get_post_info n = Some (Inr None)" by (simp add: get_post_info_descent [of n])
    then show "get_lead_from_feed_post n = Some (Inr (make_lead None None None))"
      by (rule get_lead_no_block) simp
  qed
  have b: "get_post_info n = Some (Inr (Some post_info)) \<and> post_info \<noteq> [] \<longrightarrow>
        (get_user_info post_info = Inl e \<longrightarrow> get_lead_from_feed_post n = Some (Inl e))
      \<and> (get_user_info post_info = Inr user_info \<and> get_user_link user_info = Inl e \<longrightarrow>
           get_lead_from_feed_post n = Some (Inl e))
      \<and> (get_user_info post_info = Inr user_info \<and> get_user_link user_info = Inr user_link
            \<and> get_post_link user_info = Inl e \<longrightarrow>
           get_lead_from_feed_post n = Some (Inl e))
      \<and> (get_user_info post_info = Inr user_info \<and> get_user_link user_info = Inr user_link
            \<and> get_post_link user_info = Inr post_link \<and> get_post_text post_info = Inl e \<longrightarrow>
           get_lead_from_feed_post n = Some (Inl e))
      \<and> (get_user_info post_info = Inr user_info \<and> get_user_link user_info = Inr user_link
            \<and> get_post_link user_info = Inr post_link \<and> get_post_text post_info = Inr post_text \<longrightarrow>
           get_lead_from_feed_post n
             = Some (Inr (make_lead (Some post_text) (Some user_link) (Some post_link))))"
    by (simp add: get_lead_from_feed_post_def bindR_def bindE_def)
  from a b show ?thesis by blast
qed


text \<open>Sample posts for each outcome.\<close>

lemma one_paragraph_lead:
  "get_lead_from_feed_post (styled_post tracked_user_info one_paragraph)
     = Some (Inr (make_lead (Some (''hello'' @ newline)) (Some ''https://site/user'') (Some ''https://site/post'')))"
  by code_simp

lemma styled_post_info_found:
  "get_post_info (styled_post user_info text_container)
     = Some (Inr (Some (styled_post_info user_info text_container)))"
  by (subst get_post_info.simps)
     (simp add: styled_post_def styled_post_info_def try_body_def bindE_def has_attr_def
        child_def index_def)

lemma styled_post_user_info:
  "get_user_info (styled_post_info user_info text_container) = Inr user_info"
  by (simp add: styled_post_info_def get_user_info_def bindE_def child_def index_def)

theorem get_lead_from_feed_post_outcomes_witness:
  "descent no_paragraphs = RunsOut
   \<and> get_lead_from_feed_post no_paragraphs = Some (Inr (make_lead None None None))
   \<and> get_post_info post_without_user_info = Some (Inr (Some [no_paragraphs]))
   \<and> get_lead_from_feed_post post_without_user_info = Some (Inl IndexError)
   \<and> get_lead_from_feed_post (styled_post user_info_without_anchor no_paragraphs)
       = Some (Inl TypeError)
   \<and> get_lead_from_feed_post (styled_post user_info_without_post_anchor no_paragraphs)
       = Some (Inl IndexError)
   \<and> get_lead_from_feed_post (styled_post tracked_user_info childless_paragraph)
       = Some (Inl IndexError)
   \<and> get_lead_from_feed_post (styled_post tracked_user_info one_paragraph)
       = Some (Inr (make_lead (Some (''hello'' @ newline)) (Some ''https://site/user'')
                      (Some ''https://site/post'')))"
proof -
  have a: "descent no_paragraphs = RunsOut"
    by (simp add: no_paragraphs_def)
  have r1: "get_lead_from_feed_post no_paragraphs = Some (Inr (make_lead None None None))"
    using get_lead_from_feed_post_outcomes [of no_paragraphs] a by blast
  have b: "get_post_info post_without_user_info = Some (Inr (Some [no_paragraphs]))"
    by code_simp
  have b': "get_user_info [no_paragraphs] = Inl IndexError"
    by code_simp
  have r2: "get_lead_from_feed_post post_without_user_info = Some (Inl IndexError)"
    using get_lead_from_feed_post_outcomes
            [of post_without_user_info "[no_paragraphs]" IndexError] b b'
    by blast
  have nonempty: "styled_post_info u t \<noteq> []" for u t
    by (simp add: styled_post_info_def)
  have c: "get_user_link user_info_without_anchor = Inl TypeError"
    by code_simp
  have r3: "get_lead_from_feed_post (styled_post user_info_without_anchor no_paragraphs)
              = Some (Inl TypeError)"
    using get_lead_from_feed_post_outcomes
            [of "styled_post user_info_without_anchor no_paragraphs"
                "styled_post_info user_info_without_anchor no_paragraphs" TypeError
                user_info_without_anchor]
          styled_post_info_found styled_post_user_info nonempty c
    by blast
  have d: "get_user_link user_info_without_post_anchor = Inr ''https://site/use''"
    by code_simp
  have d': "get_post_link user_info_without_post_anchor = Inl IndexError"
    by code_simp
  have r4: "get_lead_from_feed_post (styled_post user_info_without_post_anchor no_paragraphs)
              = Some (Inl IndexError)"
    using get_lead_from_feed_post_outcomes
            [of "styled_post user_info_without_post_anchor no_paragraphs"
                "styled_post_info user_info_without_post_anchor no_paragraphs" IndexError
                user_info_without_post_anchor "''https://site/use''"]
          styled_post_info_found styled_post_user_info nonempty d d'
    by blast
  have ul: "get_user_link tracked_user_info = Inr ''https://site/user''"
    by code_simp
  have pl: "get_post_link tracked_user_info = Inr ''https://site/post''"
    by code_simp
  have e: "get_post_text (styled_post_info tracked_user_info childless_paragraph) = Inl IndexError"
    by code_simp
  have r5: "get_lead_from_feed_post (styled_post tracked_user_info childless_paragraph)
              = Some (Inl IndexError)"
    using get_lead_from_feed_post_outcomes
            [of "styled_post tracked_user_info childless_paragraph"
                "styled_post_info tracked_user_info childless_paragraph" IndexError
                tracked_user_info "''https://site/user''" "''https://site/post''"]
          styled_post_info_found styled_post_user_info nonempty ul pl e
    by blast
  have f: "get_post_text (styled_post_info tracked_user_info one_paragraph)
             = Inr (''hello'' @ newline)"
    by code_simp
  have r6: "get_lead_from_feed_post (styled_post tracked_user_info one_paragraph)
       = Some (Inr (make_lead (Some (''hello'' @ newline)) (Some ''https://site/user'')
                      (Some ''https://site/post'')))"
    using get_lead_from_feed_post_outcomes
            [of "styled_post tracked_user_info one_paragraph"
                "styled_post_info tracked_user_info one_paragraph" IndexError
                tracked_user_info "''https://site/user''" "''https://site/post''"
                "''hello'' @ newline"]
          styled_post_info_found styled_post_user_info nonempty ul pl f
    by blast
  from a r1 b r2 r3 r4 r5 r6 show ?thesis by blast
qed

subsection \<open>The collection loop\<close>

text \<open>
  Every lead that the extraction returns is a \<^verbatim>\<open>dict\<close>, and the filter of the merge step
  reads \<^verbatim>\<open>lead.user_link\<close>: the step raises \<^verbatim>\<open>AttributeError\<close> as soon as there is a lead,
  and returns only the empty list.
\<close>

lemma get_lead_is_dict:
  "get_lead_from_feed_post n = Some (Inr lead) \<Longrightarrow> is_dict lead"
  by (auto simp: get_lead_from_feed_post_def bindR_def bindE_def make_lead_def Let_def
           split: option.splits sum.splits if_splits)

lemma extract_valid_dicts:
  "extract_valid posts = Some (Inr leads) \<Longrightarrow> list_all is_dict leads"
proof (induction posts arbitrary: leads)
  case Nil
  then show ?case by simp
next
  case (Cons post posts)
  then show ?case
    by (auto simp: bindR_def dest: get_lead_is_dict split: sum.splits if_splits option.splits)
qed

lemma keep_linked_dicts:
  "list_all is_dict leads \<Longrightarrow>
     keep_linked leads = (if leads = [] then Inr [] else Inl AttributeError)"
  by (cases leads; cases "hd leads") (auto simp: bindE_def)

lemma merge_step_dicts:
  assumes "list_all is_dict recent_leads"
    and "merge_step order recent_leads soup = Some (Inr merged)"
  shows "merged = [] \<and> recent_leads = []"
proof -
  from assms(2) obtain new where
    new: "new_leads soup = Some (Inr new)"
    and kept: "bindE (keep_linked (recent_leads @ new)) (list_of_set order) = Inr merged"
    by (auto simp: merge_step_def bindR_def split: option.splits sum.splits)
  from new have "list_all is_dict new"
    by (auto simp: new_leads_def dest: extract_valid_dicts split: option.splits)
  with assms(1) have "list_all is_dict (recent_leads @ new)" by simp
  from keep_linked_dicts [OF this] kept show ?thesis
    by (auto simp: bindE_def list_of_set_def split: if_splits)
qed

lemma feed_loop_returns_nothing:
  "feed_loop order pages [] at_least_posts = Some (Inr leads) \<Longrightarrow> leads = []"
proof (induction pages)
  case Nil
  then show ?case by simp
next
  case (Cons soup later)
  show ?case
  proof (cases "merge_step order [] soup")
    case None
    with Cons.prems show ?thesis by (simp add: bindR_def)
  next
    case (Some r)
    show ?thesis
    proof (cases r)
      case (Inl e)
      with Some Cons.prems show ?thesis by (simp add: bindR_def)
    next
      case (Inr merged)
      with Some merge_step_dicts [of "[]" order soup merged] have "merged = []" by simp
      with Some Inr Cons show ?thesis by (auto simp: bindR_def split: if_splits)
    qed
  qed
qed

lemma get_feed_posts_returns_nothing:
  "fst (get_feed_posts order d g at_least_posts) = Some (Inr leads) \<Longrightarrow> leads = []"
  by (auto simp: get_feed_posts_def dest: feed_loop_returns_nothing split: prod.splits sum.splits)

text \<open>With the bound of eight leads that \<^verbatim>\<open>get_new_posts\<close> asks for, \<^verbatim>\<open>get_feed_posts\<close>
  never returns.\<close>

lemma get_feed_posts_never_returns_eight:
  "fst (get_feed_posts order d g 8) \<noteq> Some (Inr leads)"
proof
  assume r: "fst (get_feed_posts order d g 8) = Some (Inr leads)"
  then have "leads = []" by (rule get_feed_posts_returns_nothing)
  with r have "feed_loop order
      (case map_of (snapshots (drv_get d (group_link g))) (current_url (drv_get d (group_link g)))
       of None \<Rightarrow> [] | Some ps \<Rightarrow> ps) [] 8 = Some (Inr [])"
    by (auto simp: get_feed_posts_def load_group_page_def Let_def split: prod.splits sum.splits if_splits)
  moreover have "feed_loop order pages [] 8 \<noteq> Some (Inr [])" for pages
  proof (induction pages)
    case Nil
    show ?case by simp
  next
    case (Cons soup later)
    show ?case
    proof
      assume a: "feed_loop order (soup # later) [] 8 = Some (Inr [])"
      then obtain merged where m: "merge_step order [] soup = Some (Inr merged)"
        by (auto simp: bindR_def split: option.splits sum.splits)
      with merge_step_dicts [of "[]" order soup merged] have "merged = []" by simp
      with a m Cons show False by (simp add: bindR_def)
    qed
  qed
  ultimately show False by blast
qed

text \<open>
  C5. The claim: after every merge step the accumulated leads have both links and no two of
  them share a pair of links. The code, on a feed that shows one valid post whose extraction
  gives both links: the merge step raises \<^verbatim>\<open>AttributeError\<close> at \<^verbatim>\<open>lead.user_link\<close>, so
  nothing is accumulated.
\<close>

theorem merge_step_raises_on_first_lead:
  "merge_step order [] one_post_page = Some (Inl AttributeError)"
proof -
  have "new_leads one_post_page
          = Some (Inr [make_lead (Some no_text) (Some ''https://site/user'') (Some ''https://site/post'')])"
    by code_simp
  then show ?thesis
    by (simp add: merge_step_def bindR_def bindE_def make_lead_def)
qed

text \<open>
  C4. The claim: the sequence placed in the returned mapping keeps the document order of the
  posts. The code, on a group whose feed shows one valid post: \<^verbatim>\<open>get_feed_posts\<close> raises
  \<^verbatim>\<open>AttributeError\<close> in its first merge step, so no sequence reaches the mapping.
\<close>

theorem get_feed_posts_raises_on_first_lead:
  "fst (get_feed_posts order sample_driver sample_group 8) = Some (Inl AttributeError)"
proof -
  have "new_leads one_post_page
          = Some (Inr [make_lead (Some no_text) (Some ''https://site/user'') (Some ''https://site/post'')])"
    by code_simp
  then have "merge_step order [] one_post_page = Some (Inl AttributeError)"
    by (simp add: merge_step_def bindR_def bindE_def make_lead_def)
  then show ?thesis
    by (simp add: get_feed_posts_def load_group_page_def drv_get_def find_element_def
          sample_driver_def sample_group_def bindR_def)
qed

text \<open>In the namespace of the module, \<^verbatim>\<open>get_new_posts\<close> raises before it opens a group.\<close>

lemma get_new_posts_never_crawls:
  "get_new_posts scrapper_globals order acct d
     = (Some (Inl (if webdriver_flag d then AssertionError else NameError)), acct, d)"
  by (simp add: get_new_posts_def handle_authorization_def resolve_def scrapper_globals_def
        module_names_def)

subsection \<open>What the engine writes\<close>

text \<open>\<^verbatim>\<open>add_cookie\<close> leaves each supplied cookie as it was or with \<^verbatim>\<open>"Lax"\<close> stored under
  \<^verbatim>\<open>sameSite\<close>, also when it raises on a later cookie.\<close>

lemma add_cookie_rewrites:
  "add_cookie cs d = (r, cs', d') \<Longrightarrow>
     list_all2 same_site_rewritten cs cs' \<and> browser_cookies d' = browser_cookies d"
proof (induction cs arbitrary: d r cs' d')
  case Nil
  then show ?case by simp
next
  case (Cons c cs)
  show ?case
  proof (cases "map_of c ''sameSite''")
    case None
    with Cons.prems show ?thesis
      by (auto simp: same_site_rewritten_def list_all2_same)
  next
    case (Some v)
    define c2 where "c2 =
      (let c1 = (if v \<in> set [''unspecified'', ''no_restriction'']
                 then AList.update ''sameSite'' ''Lax'' c else c)
       in if map_of c1 ''sameSite'' = Some ''lax'' then AList.update ''sameSite'' ''Lax'' c1 else c1)"
    have c2: "same_site_rewritten c c2"
      using Some by (auto simp: c2_def same_site_rewritten_def Let_def update_conv')
    obtain r1 rest' d2 where rest: "add_cookie cs (d\<lparr>jar := jar d @ [c2]\<rparr>) = (r1, rest', d2)"
      by (cases "add_cookie cs (d\<lparr>jar := jar d @ [c2]\<rparr>)") auto
    from Cons.IH [OF rest] have ih: "list_all2 same_site_rewritten cs rest'"
      "browser_cookies d2 = browser_cookies d" by simp_all
    from Some rest have "add_cookie (c # cs) d = (r1, c2 # rest', d2)"
      by (simp add: c2_def Let_def)
    with Cons.prems c2 ih show ?thesis by auto
  qed
qed

lemma handle_login_cookies:
  "handle_login user d = (Some fresh, d') \<Longrightarrow> fresh = browser_cookies d"
  by (auto simp: handle_login_def Let_def split: if_splits)

lemma handle_authorization_writes:
  assumes "handle_authorization ns user d = (r, user', d')"
  shows "groups user' = groups user \<and> username user' = username user
         \<and> password user' = password user \<and> proxy_url user' = proxy_url user
         \<and> list_all2 same_site_rewritten (cookies user) (cookies user')
         \<and> (new_cookies user' = new_cookies user
            \<or> (\<exists>fresh. new_cookies user' = Some fresh
                  \<and> list_all2 same_site_rewritten (browser_cookies d) fresh))"
proof (cases "resolve ns ''settings'' ''FB_MAIN_LINK''")
  case (Inl e)
  with assms show ?thesis
    by (auto simp: handle_authorization_def same_site_rewritten_def list_all2_same)
next
  case (Inr url)
  let ?d1 = "drv_get d url"
  have bc1: "browser_cookies ?d1 = browser_cookies d" by (simp add: drv_get_def)
  obtain r1 cs d2 where first:
    "(if cookies user \<noteq> [] then add_cookie (cookies user) ?d1 else (Inr (), cookies user, ?d1))
       = (r1, cs, d2)"
    by (cases "if cookies user \<noteq> [] then add_cookie (cookies user) ?d1 else (Inr (), cookies user, ?d1)") auto
  have cs: "list_all2 same_site_rewritten (cookies user) cs" and bc2: "browser_cookies d2 = browser_cookies d"
    using first bc1 add_cookie_rewrites [of "cookies user" ?d1 r1 cs d2]
    by (auto simp: same_site_rewritten_def list_all2_same split: if_splits)
  show ?thesis
  proof (cases r1)
    case (Inl e)
    with assms Inr first have "user' = user\<lparr>cookies := cs\<rparr>"
      by (simp add: handle_authorization_def Let_def)
    with cs show ?thesis by simp
  next
    case r1: (Inr u)
    obtain fresh_opt d3 where login: "handle_login (user\<lparr>cookies := cs\<rparr>) d2 = (fresh_opt, d3)"
      by (cases "handle_login (user\<lparr>cookies := cs\<rparr>) d2") auto
    show ?thesis
    proof (cases fresh_opt)
      case None
      with assms Inr first r1 login have "user' = user\<lparr>cookies := cs\<rparr>"
        by (simp add: handle_authorization_def Let_def)
      with cs show ?thesis by simp
    next
      case (Some fresh)
      with login have fresh: "fresh = browser_cookies d"
        using handle_login_cookies bc2 by metis
      show ?thesis
      proof (cases "fresh = []")
        case True
        with assms Inr first r1 login Some have "user' = user\<lparr>cookies := cs\<rparr>"
          by (simp add: handle_authorization_def Let_def)
        with cs show ?thesis by simp
      next
        case False
        obtain r2 fresh' d4 where second: "add_cookie fresh d3 = (r2, fresh', d4)"
          by (cases "add_cookie fresh d3") auto
        from assms Inr first r1 login Some False second
        have "user' = user\<lparr>cookies := cs, new_cookies := Some fresh'\<rparr>"
          by (simp add: handle_authorization_def Let_def)
        moreover from add_cookie_rewrites [OF second] fresh
        have "list_all2 same_site_rewritten (browser_cookies d) fresh'" by simp
        ultimately show ?thesis using cs by simp
      qed
    qed
  qed
qed

text \<open>
  C6, as amended. In every namespace, whatever \<^verbatim>\<open>get_new_posts\<close> does (session
  establishment, then crawling), it never writes a group: the account's groups, with their
  watermarks, are as they were, and so are the user name, the password and the proxy
  address. What it writes on the caller's objects are the cookies: the supplied cookie
  records are rewritten in place (\<^verbatim>\<open>sameSite\<close> becomes \<^verbatim>\<open>"Lax"\<close>), and refreshed login
  cookies are not returned but stored on the account as \<^verbatim>\<open>new_cookies\<close>, rewritten in
  the same way.
\<close>

theorem engine_writes_only_cookies:
  assumes "get_new_posts ns order acct d = (r, acct', d')"
  shows "groups acct' = groups acct \<and> username acct' = username acct
         \<and> password acct' = password acct \<and> proxy_url acct' = proxy_url acct
         \<and> list_all2 same_site_rewritten (cookies acct) (cookies acct')
         \<and> (new_cookies acct' = new_cookies acct
            \<or> (\<exists>fresh. new_cookies acct' = Some fresh
                  \<and> list_all2 same_site_rewritten (browser_cookies d) fresh))"
proof (cases "webdriver_flag d")
  case True
  with assms show ?thesis
    by (auto simp: get_new_posts_def same_site_rewritten_def list_all2_same)
next
  case False
  obtain r1 acct1 d1 where auth: "handle_authorization ns acct d = (r1, acct1, d1)"
    by (cases "handle_authorization ns acct d") auto
  with assms False have "acct' = acct1"
    by (auto simp: get_new_posts_def split: sum.splits prod.splits)
  with handle_authorization_writes [OF auth] show ?thesis by simp
qed

text \<open>
  The theorem in a namespace where \<^verbatim>\<open>settings\<close> is bound, on an account with one cookie
  whose policy is \<^verbatim>\<open>"lax"\<close>, in front of the login wall.
\<close>

theorem engine_writes_only_cookies_witness:
  "groups (fst (snd (get_new_posts namespace_with_settings rev sample_account sample_driver)))
     = groups sample_account
   \<and> cookies sample_account = [[(''name'', ''c_user''), (''sameSite'', ''lax'')]]
   \<and> cookies (fst (snd (get_new_posts namespace_with_settings rev sample_account sample_driver)))
     = [[(''name'', ''c_user''), (''sameSite'', ''Lax'')]]
   \<and> new_cookies sample_account = None
   \<and> new_cookies (fst (snd (get_new_posts namespace_with_settings rev sample_account sample_driver)))
     = Some [[(''name'', ''xs''), (''sameSite'', ''Lax'')]]"
proof -
  obtain r acct' d' where
    run: "get_new_posts namespace_with_settings rev sample_account sample_driver = (r, acct', d')"
    by (cases "get_new_posts namespace_with_settings rev sample_account sample_driver") auto
  from engine_writes_only_cookies [OF run] have g: "groups acct' = groups sample_account"
    by blast
  have auth: "handle_authorization namespace_with_settings sample_account sample_driver
      = (Inr (),
         sample_account\<lparr>cookies := [[(''name'', ''c_user''), (''sameSite'', ''Lax'')]],
                         new_cookies := Some [[(''name'', ''xs''), (''sameSite'', ''Lax'')]]\<rparr>,
         snd (snd (handle_authorization namespace_with_settings sample_account sample_driver)))"
    by (simp add: handle_authorization_def namespace_with_settings_def resolve_def
          sample_account_def sample_driver_def drv_get_def handle_login_def Let_def)
  from run auth have "acct' = sample_account\<lparr>cookies := [[(''name'', ''c_user''), (''sameSite'', ''Lax'')]],
                         new_cookies := Some [[(''name'', ''xs''), (''sameSite'', ''Lax'')]]\<rparr>"
    by (auto simp: get_new_posts_def sample_driver_def split: prod.splits sum.splits)
  with g run show ?thesis by (simp add: sample_account_def)
qed

text \<open>
  C6 as stated fails: \<^verbatim>\<open>add_cookie\<close>, given the account's cookie records, returns
  normally and leaves \<^verbatim>\<open>"Lax"\<close> where the caller's record had \<^verbatim>\<open>"lax"\<close>.
\<close>

theorem add_cookie_rewrites_supplied_records:
  "cookies sample_account = [[(''name'', ''c_user''), (''sameSite'', ''lax'')]]
   \<and> fst (add_cookie (cookies sample_account) sample_driver) = Inr ()
   \<and> fst (snd (add_cookie (cookies sample_account) sample_driver))
       = [[(''name'', ''c_user''), (''sameSite'', ''Lax'')]]"
  by (simp add: sample_account_def Let_def)

end
